theory Spec2Isabelle
  imports Main "HOL-Library.Sublist" "HOL-Library.AList"
begin

section \<open>Strings and the placeholder counter\<close>

text \<open>
  A JavaScript string is a sequence of code units; it is modelled as a \<open>string\<close>, one
  \<open>char\<close> per code unit.  \<open>String.prototype.split\<close> with a string separator follows
  the language definition: an empty separator cuts the text into its code units (so the
  empty text yields no piece at all); otherwise the text is scanned from the left, every
  occurrence of the separator found at or after the end of the previous one closes a
  piece, and the rest of the text is the last piece.
\<close>

function split_pieces :: "string \<Rightarrow> string \<Rightarrow> string \<Rightarrow> string list" where
  "split_pieces sep piece [] = [piece]"
| "split_pieces sep piece (c # cs) =
     (if sep \<noteq> [] \<and> prefix sep (c # cs)
      then piece # split_pieces sep [] (drop (length sep) (c # cs))
      else split_pieces sep (piece @ [c]) cs)"
  by pat_completeness auto
termination
  by (relation "measure (\<lambda>(sep, piece, s). length s)") auto

definition split_js :: "string \<Rightarrow> string \<Rightarrow> string list" where
  "split_js s sep = (if sep = [] then map (\<lambda>c. [c]) s else split_pieces sep [] s)"

text \<open>\<open>const count = (str, sub) => str.split(sub).length - 1\<close>\<close>

definition count :: "string \<Rightarrow> string \<Rightarrow> int" where
  "count str sub = int (length (split_js str sub)) - 1"

subsection \<open>Occurrences, as the specification words them\<close>

text \<open>
  The specification describes the result of \<open>count\<close> independently of \<open>split\<close>:
  the pattern occurs at position \<open>i\<close> when the text reads the pattern there, and the
  number of non-overlapping occurrences is what a scan from the left finds when, after
  each occurrence it takes, it only accepts positions at or after that occurrence's end.
\<close>

definition occurs_at :: "string \<Rightarrow> string \<Rightarrow> nat \<Rightarrow> bool" where
  "occurs_at str pat i =
     (i + length pat \<le> length str \<and> take (length pat) (drop i str) = pat)"

definition occurrence_positions :: "string \<Rightarrow> string \<Rightarrow> nat list" where
  "occurrence_positions str pat = filter (occurs_at str pat) [0..<Suc (length str)]"

fun pick_disjoint :: "nat \<Rightarrow> nat \<Rightarrow> nat list \<Rightarrow> nat" where
  "pick_disjoint len free [] = 0"
| "pick_disjoint len free (p # ps) =
     (if free \<le> p then Suc (pick_disjoint len (p + len) ps)
      else pick_disjoint len free ps)"

definition occurrences :: "string \<Rightarrow> string \<Rightarrow> nat" where
  "occurrences str pat = pick_disjoint (length pat) 0 (occurrence_positions str pat)"

definition occurs :: "string \<Rightarrow> string \<Rightarrow> bool" where
  "occurs str pat = (occurrence_positions str pat \<noteq> [])"

text \<open>
  A selection of positions, in increasing order, is non-overlapping for a pattern of
  length \<open>len\<close> when each position lies at or after the end of the occurrence
  before it; \<open>pick_positions\<close> is the selection the scan from the left makes.
\<close>

fun spaced :: "nat \<Rightarrow> nat \<Rightarrow> nat list \<Rightarrow> bool" where
  "spaced len free [] = True"
| "spaced len free (q # qs) = (free \<le> q \<and> spaced len (q + len) qs)"

fun pick_positions :: "nat \<Rightarrow> nat \<Rightarrow> nat list \<Rightarrow> nat list" where
  "pick_positions len free [] = []"
| "pick_positions len free (p # ps) =
     (if free \<le> p then p # pick_positions len (p + len) ps
      else pick_positions len free ps)"

text \<open>
  An auxiliary scan used in the proofs: it walks the text once, with the number of code
  units still covered by the occurrence taken last.
\<close>

fun scan :: "string \<Rightarrow> nat \<Rightarrow> string \<Rightarrow> nat" where
  "scan pat k [] = 0"
| "scan pat k (c # cs) =
     (if k = 0 \<and> prefix pat (c # cs) then Suc (scan pat (length pat - 1) cs)
      else scan pat (k - 1) cs)"

section \<open>Objects read from JSON files\<close>

text \<open>
  A translation file is a flat JSON object from string keys to string values.  Such an
  object is modelled by the list of its own properties in enumeration order (the order
  of \<open>Object.keys\<close>, of \<open>for ... in\<close> and of the spread \<open>{ ...o }\<close>); an object has
  no two properties of the same name, so the keys of the list are distinct.

  Every such object inherits from \<open>Object.prototype\<close>.  The operator \<open>in\<close> and a
  property read \<open>o[k]\<close> look through that prototype, \<open>Object.keys\<close>,
  \<open>for ... in\<close> and \<open>hasOwnProperty\<close> do not: the properties of
  \<open>Object.prototype\<close> are not enumerable.  What is inherited is a function or
  an object, never a string.
\<close>

type_synonym obj = "(string \<times> string) list"

datatype js_error = TypeError | ReadError | SyntaxError

datatype jsval = JString string | JInherited | JUndefined

definition object_prototype_names :: "string list" where
  "object_prototype_names =
     [''constructor'', ''__defineGetter__'', ''__defineSetter__'', ''hasOwnProperty'',
      ''__lookupGetter__'', ''__lookupSetter__'', ''isPrototypeOf'',
      ''propertyIsEnumerable'', ''toString'', ''valueOf'', ''__proto__'',
      ''toLocaleString'']"

definition keys :: "obj \<Rightarrow> string list" where
  "keys x = map fst x"

definition has_own :: "obj \<Rightarrow> string \<Rightarrow> bool" where
  "has_own x k = (k \<in> set (keys x))"

text \<open>\<open>k in x\<close>\<close>

definition has_property :: "obj \<Rightarrow> string \<Rightarrow> bool" where
  "has_property x k = (has_own x k \<or> k \<in> set object_prototype_names)"

text \<open>\<open>x[k]\<close>, read\<close>

definition get_prop :: "obj \<Rightarrow> string \<Rightarrow> jsval" where
  "get_prop x k =
     (case map_of x k of
        Some v \<Rightarrow> JString v
      | None \<Rightarrow> if k \<in> set object_prototype_names then JInherited else JUndefined)"

text \<open>
  \<open>x[k] = v\<close>: an own property keeps its place and takes the new value.  (In the
  loops below the assignment is only reached for a key the object owns.)
\<close>

definition set_prop :: "obj \<Rightarrow> string \<Rightarrow> string \<Rightarrow> obj" where
  "set_prop x k v = AList.update k v x"

text \<open>
  \<open>count\<close> applied to a value that need not be a string: calling \<open>split\<close> on a
  value that has no such method raises a \<open>TypeError\<close>.
\<close>

definition count_val :: "jsval \<Rightarrow> string \<Rightarrow> js_error + int" where
  "count_val v sub = (case v of JString s \<Rightarrow> Inr (count s sub) | _ \<Rightarrow> Inl TypeError)"

text \<open>
  \<open>patternCheck(source, translation, pattern)\<close> of the second copy and
  \<open>validateParams(source, translation)\<close> of the first, as the pair
  \<open>(source, translation)\<close> of the two counts.  The translation value is read from
  the object's own property inside \<open>for ... in\<close>, so it is a string.
\<close>

definition patternCheck :: "jsval \<Rightarrow> string \<Rightarrow> string \<Rightarrow> js_error + int \<times> int" where
  "patternCheck source translation pattern =
     (case count_val source pattern of
        Inl e \<Rightarrow> Inl e
      | Inr s \<Rightarrow> Inr (s, count translation pattern))"

definition validateParams :: "jsval \<Rightarrow> string \<Rightarrow> js_error + int \<times> int" where
  "validateParams source translation =
     (case count_val source ''{}'' of
        Inl e \<Rightarrow> Inl e
      | Inr s \<Rightarrow> Inr (s, count translation ''{}''))"

text \<open>
  \<open>objHasAllKeys(x, y)\<close>: equal numbers of keys and every key of \<open>x\<close> owned by
  \<open>y\<close>.  The test is the method call \<open>y.hasOwnProperty(z)\<close>; when \<open>y\<close> itself
  owns a property named \<open>hasOwnProperty\<close>, that string is what the call finds and
  the call raises.  \<open>every\<close> makes no call on an empty array, and \<open>&&\<close> skips it
  when the lengths differ.
\<close>

definition objHasAllKeys :: "obj \<Rightarrow> obj \<Rightarrow> js_error + bool" where
  "objHasAllKeys x y =
     (if length (keys x) \<noteq> length (keys y) then Inr False
      else if keys x = [] then Inr True
      else if has_own y ''hasOwnProperty'' then Inl TypeError
      else Inr (list_all (has_own y) (keys x)))"

definition patterns :: "string list" where
  "patterns = [''{}'', ''%'']"

section \<open>Numbers in messages\<close>

definition digit_char :: "nat \<Rightarrow> char" where
  "digit_char d = ''0123456789'' ! d"

fun digits :: "nat \<Rightarrow> string" where
  "digits n = (if n < 10 then [digit_char n] else digits (n div 10) @ [digit_char (n mod 10)])"

declare digits.simps [simp del]

definition show_int :: "int \<Rightarrow> string" where
  "show_int i = (if i < 0 then CHR ''-'' # digits (nat (- i)) else digits (nat i))"

definition pattern_error_msg :: "string \<Rightarrow> string \<Rightarrow> string \<Rightarrow> int \<Rightarrow> int \<Rightarrow> string" where
  "pattern_error_msg translation key pattern s t =
     translation @ ''['' @ key @ '']: incorrect number of `'' @ pattern @ ''` found (''
       @ show_int s @ '':'' @ show_int t @ '')''"

definition param_error_msg :: "string \<Rightarrow> string \<Rightarrow> int \<Rightarrow> int \<Rightarrow> string" where
  "param_error_msg translation key s t =
     translation @ ''['' @ key @ '']: incorrect number of parameters (''
       @ show_int s @ '':'' @ show_int t @ '')''"

definition untranslated_msg :: "string \<Rightarrow> string \<Rightarrow> string" where
  "untranslated_msg translation key = translation @ ''['' @ key @ '']: might be untranslated''"

section \<open>The report and the files\<close>

text \<open>
  \<open>res\<close> is the report the run accumulates (the first copy has no \<open>warnings\<close>
  and never touches that field).  The world holds the translation files by name, as the
  objects \<open>JSON.parse\<close> reads from them and \<open>JSON.stringify\<close> writes to them
  (the names of an index are relative to the working directory, where \<open>./name\<close>
  and \<open>name\<close> are one file).  A previous index is given on the command line by
  any path, so the world also tells what the file system has at a path, spelled as the
  script passes it: nothing, a file that is not JSON, a JSON file without a
  \<open>translations\<close> table, or an index with its table (language code and
  \<open>file\<close> of every entry, in order).  An exception ends the run: a function that
  can raise returns \<open>Inl\<close> of the error.
\<close>

record report =
  changed :: "string list"
  errors :: "string list"
  warnings :: "string list"

datatype prior = Absent | NotJson | NoTable | Index "(string \<times> string) list"

record world =
  files :: "string \<rightharpoonup> obj"
  prior_index :: "string \<Rightarrow> prior"
  res :: report

definition translationToObj :: "world \<Rightarrow> string \<Rightarrow> js_error + obj" where
  "translationToObj w translation_file =
     (case files w translation_file of None \<Rightarrow> Inl ReadError | Some x \<Rightarrow> Inr x)"

definition existsSync :: "world \<Rightarrow> string \<Rightarrow> bool" where
  "existsSync w path = (prior_index w path \<noteq> Absent)"

text \<open>
  \<open>translationToObj(oldTranslationFile).translations\<close>: \<open>translationToObj\<close>
  opens \<open>./\<close> followed by the path it is given, which need not be the file
  \<open>existsSync\<close> was asked about.
\<close>

definition read_index_translations :: "world \<Rightarrow> string \<Rightarrow> js_error + (string \<times> string) list" where
  "read_index_translations w path =
     (case prior_index w (''./'' @ path) of
        Index entries \<Rightarrow> Inr entries
      | NoTable \<Rightarrow> Inl TypeError
      | NotJson \<Rightarrow> Inl SyntaxError
      | Absent \<Rightarrow> Inl ReadError)"

record index =
  default_lang_code :: string
  translations_table :: "(string \<times> string) list"

definition default_lang_file :: "index \<Rightarrow> string" where
  "default_lang_file idx = default_lang_code idx @ ''.json''"

text \<open>
  \<open>Object.values(index.translations).map(x => x.file).filter(x => x != default_lang_file)\<close>
\<close>

definition target_files :: "string \<Rightarrow> (string \<times> string) list \<Rightarrow> string list" where
  "target_files dfile table = filter (\<lambda>x. x \<noteq> dfile) (map snd table)"

text \<open>The constant \<^verbatim>\<open>translations\<close> of the source.\<close>

definition translation_files :: "index \<Rightarrow> string list" where
  "translation_files idx = target_files (default_lang_file idx) (translations_table idx)"

section \<open>The second copy: patterns, warnings and the diff against a previous index\<close>

definition newTranslations :: "index \<Rightarrow> world \<Rightarrow> string \<Rightarrow> js_error + string list" where
  "newTranslations idx w oldTranslationFile =
     (if \<not> existsSync w oldTranslationFile then Inr (translation_files idx)
      else case read_index_translations w oldTranslationFile of
        Inl e \<Rightarrow> Inl e
      | Inr table \<Rightarrow>
          (let oldTranslations = target_files (default_lang_file idx) table;
               uniq = filter (\<lambda>x. x \<notin> set oldTranslations) (translation_files idx)
           in if length uniq = 0 then Inr (translation_files idx) else Inr uniq))"

text \<open>The body of \<open>patterns.forEach\<close>, pushing onto \<open>res.errors\<close>.\<close>

fun check_patterns ::
  "string \<Rightarrow> string \<Rightarrow> jsval \<Rightarrow> string \<Rightarrow> string list \<Rightarrow> string list \<Rightarrow> js_error + string list" where
  "check_patterns translation key source tval [] errs = Inr errs"
| "check_patterns translation key source tval (pattern # rest) errs =
     (case patternCheck source tval pattern of
        Inl e \<Rightarrow> Inl e
      | Inr (s, t) \<Rightarrow>
          check_patterns translation key source tval rest
            (if s \<noteq> t then errs @ [pattern_error_msg translation key pattern s t] else errs))"

text \<open>
  \<open>for (let key in translation_obj)\<close> of \<open>mergeFunc\<close>, over the own properties of
  the translation in order, with \<open>res_obj\<close> and \<open>res.errors\<close> as the state.
\<close>

fun merge_loop_v2 ::
  "string \<Rightarrow> obj \<Rightarrow> (string \<times> string) list \<Rightarrow> obj \<Rightarrow> string list \<Rightarrow> js_error + obj \<times> string list" where
  "merge_loop_v2 translation default_lang [] res_obj errs = Inr (res_obj, errs)"
| "merge_loop_v2 translation default_lang ((key, tval) # rest) res_obj errs =
     (if has_property res_obj key then
        (case check_patterns translation key (get_prop default_lang key) tval patterns errs of
           Inl e \<Rightarrow> Inl e
         | Inr errs' \<Rightarrow>
             merge_loop_v2 translation default_lang rest (set_prop res_obj key tval) errs')
      else merge_loop_v2 translation default_lang rest res_obj errs)"

definition mergeFunc_v2 :: "obj \<Rightarrow> string \<Rightarrow> world \<Rightarrow> js_error + world" where
  "mergeFunc_v2 default_lang translation w =
     (case translationToObj w translation of
        Inl e \<Rightarrow> Inl e
      | Inr translation_obj \<Rightarrow>
          (case merge_loop_v2 translation default_lang translation_obj default_lang
                  (errors (res w)) of
             Inl e \<Rightarrow> Inl e
           | Inr (res_obj, errs) \<Rightarrow>
               (case objHasAllKeys res_obj translation_obj of
                  Inl e \<Rightarrow> Inl e
                | Inr same \<Rightarrow>
                    if \<not> same then
                      Inr (w\<lparr>files := (files w)(translation \<mapsto> res_obj),
                             res := (res w)\<lparr>changed := changed (res w) @ [translation],
                                            errors := errs\<rparr>\<rparr>)
                    else Inr (w\<lparr>res := (res w)\<lparr>errors := errs\<rparr>\<rparr>))))"

fun validate_loop_v2 ::
  "string \<Rightarrow> obj \<Rightarrow> (string \<times> string) list \<Rightarrow> string list \<Rightarrow> string list
     \<Rightarrow> js_error + string list \<times> string list" where
  "validate_loop_v2 translation default_lang [] errs warns = Inr (errs, warns)"
| "validate_loop_v2 translation default_lang ((key, tval) # rest) errs warns =
     (if has_property default_lang key then
        (case check_patterns translation key (get_prop default_lang key) tval patterns errs of
           Inl e \<Rightarrow> Inl e
         | Inr errs' \<Rightarrow>
             validate_loop_v2 translation default_lang rest errs'
               (if get_prop default_lang key = JString tval
                then warns @ [untranslated_msg translation key] else warns))
      else validate_loop_v2 translation default_lang rest errs warns)"

definition validateFunc_v2 :: "obj \<Rightarrow> string \<Rightarrow> world \<Rightarrow> js_error + world" where
  "validateFunc_v2 default_lang translation w =
     (case translationToObj w translation of
        Inl e \<Rightarrow> Inl e
      | Inr translation_obj \<Rightarrow>
          (case validate_loop_v2 translation default_lang translation_obj
                  (errors (res w)) (warnings (res w)) of
             Inl e \<Rightarrow> Inl e
           | Inr (errs, warns) \<Rightarrow>
               Inr (w\<lparr>res := (res w)\<lparr>errors := errs, warnings := warns\<rparr>\<rparr>)))"

section \<open>The first copy: one pattern, no warnings, no diff\<close>

fun merge_loop_v1 ::
  "string \<Rightarrow> obj \<Rightarrow> (string \<times> string) list \<Rightarrow> obj \<Rightarrow> string list \<Rightarrow> js_error + obj \<times> string list" where
  "merge_loop_v1 translation default_lang [] res_obj errs = Inr (res_obj, errs)"
| "merge_loop_v1 translation default_lang ((key, tval) # rest) res_obj errs =
     (if has_property res_obj key then
        (case validateParams (get_prop default_lang key) tval of
           Inl e \<Rightarrow> Inl e
         | Inr (s, t) \<Rightarrow>
             merge_loop_v1 translation default_lang rest (set_prop res_obj key tval)
               (if s \<noteq> t then errs @ [param_error_msg translation key s t] else errs))
      else merge_loop_v1 translation default_lang rest res_obj errs)"

definition mergeFunc_v1 :: "obj \<Rightarrow> string \<Rightarrow> world \<Rightarrow> js_error + world" where
  "mergeFunc_v1 default_lang translation w =
     (case translationToObj w translation of
        Inl e \<Rightarrow> Inl e
      | Inr translation_obj \<Rightarrow>
          (case merge_loop_v1 translation default_lang translation_obj default_lang
                  (errors (res w)) of
             Inl e \<Rightarrow> Inl e
           | Inr (res_obj, errs) \<Rightarrow>
               if length (keys res_obj) \<noteq> length (keys translation_obj) then
                 Inr (w\<lparr>files := (files w)(translation \<mapsto> res_obj),
                        res := (res w)\<lparr>changed := changed (res w) @ [translation],
                                       errors := errs\<rparr>\<rparr>)
               else Inr (w\<lparr>res := (res w)\<lparr>errors := errs\<rparr>\<rparr>)))"

fun validate_loop_v1 ::
  "string \<Rightarrow> obj \<Rightarrow> (string \<times> string) list \<Rightarrow> string list \<Rightarrow> js_error + string list" where
  "validate_loop_v1 translation default_lang [] errs = Inr errs"
| "validate_loop_v1 translation default_lang ((key, tval) # rest) errs =
     (if has_property default_lang key then
        (case validateParams (get_prop default_lang key) tval of
           Inl e \<Rightarrow> Inl e
         | Inr (s, t) \<Rightarrow>
             validate_loop_v1 translation default_lang rest
               (if s \<noteq> t then errs @ [param_error_msg translation key s t] else errs))
      else validate_loop_v1 translation default_lang rest errs)"

definition validateFunc_v1 :: "obj \<Rightarrow> string \<Rightarrow> world \<Rightarrow> js_error + world" where
  "validateFunc_v1 default_lang translation w =
     (case translationToObj w translation of
        Inl e \<Rightarrow> Inl e
      | Inr translation_obj \<Rightarrow>
          (case validate_loop_v1 translation default_lang translation_obj (errors (res w)) of
             Inl e \<Rightarrow> Inl e
           | Inr errs \<Rightarrow> Inr (w\<lparr>res := (res w)\<lparr>errors := errs\<rparr>\<rparr>)))"

section \<open>The runner\<close>

datatype command = Merge | Validate

definition commands :: "(string \<times> command) list" where
  "commands = [(''merge'', Merge), (''validate'', Validate)]"

definition commandNames :: "string list" where
  "commandNames = map fst commands"

text \<open>
  \<open>toLowerCase\<close>, code unit by code unit: the capitals \<open>A\<close> to \<open>Z\<close> and
  the capitals of the Latin-1 range (\<open>0xC0\<close> to \<open>0xDE\<close> without the
  multiplication sign \<open>0xD7\<close>) become their small letters, \<open>0x20\<close> above; the
  other code units below \<open>0x100\<close> have no other lower case.
\<close>

definition capital_units :: string where
  "capital_units =
     ''ABCDEFGHIJKLMNOPQRSTUVWXYZ'' @
     [CHR 0xC0, CHR 0xC1, CHR 0xC2, CHR 0xC3, CHR 0xC4, CHR 0xC5, CHR 0xC6, CHR 0xC7,
      CHR 0xC8, CHR 0xC9, CHR 0xCA, CHR 0xCB, CHR 0xCC, CHR 0xCD, CHR 0xCE, CHR 0xCF,
      CHR 0xD0, CHR 0xD1, CHR 0xD2, CHR 0xD3, CHR 0xD4, CHR 0xD5, CHR 0xD6,
      CHR 0xD8, CHR 0xD9, CHR 0xDA, CHR 0xDB, CHR 0xDC, CHR 0xDD, CHR 0xDE]"

definition small_units :: string where
  "small_units =
     ''abcdefghijklmnopqrstuvwxyz'' @
     [CHR 0xE0, CHR 0xE1, CHR 0xE2, CHR 0xE3, CHR 0xE4, CHR 0xE5, CHR 0xE6, CHR 0xE7,
      CHR 0xE8, CHR 0xE9, CHR 0xEA, CHR 0xEB, CHR 0xEC, CHR 0xED, CHR 0xEE, CHR 0xEF,
      CHR 0xF0, CHR 0xF1, CHR 0xF2, CHR 0xF3, CHR 0xF4, CHR 0xF5, CHR 0xF6,
      CHR 0xF8, CHR 0xF9, CHR 0xFA, CHR 0xFB, CHR 0xFC, CHR 0xFD, CHR 0xFE]"

definition lower_char :: "char \<Rightarrow> char" where
  "lower_char c =
     (case map_of (zip capital_units small_units) c of
        Some l \<Rightarrow> l
      | None \<Rightarrow> c)"

definition toLowerCase :: "string \<Rightarrow> string" where
  "toLowerCase s = map lower_char s"

fun join :: "string \<Rightarrow> string list \<Rightarrow> string" where
  "join sep [] = []"
| "join sep [x] = x"
| "join sep (x # y # ys) = x @ sep @ join sep (y # ys)"

definition usage :: "string \<Rightarrow> string" where
  "usage msg = msg @ [CHR 0x0A] @ ''Available commands: '' @ join '', '' commandNames"

text \<open>
  The command check: \<open>Inl\<close> is the message printed before \<open>exit(1)\<close>, \<open>Inr\<close> the
  lowercased command name the run goes on with.
\<close>

definition resolve_command :: "string option \<Rightarrow> string + string" where
  "resolve_command argv2 =
     (case map_option toLowerCase argv2 of
        None \<Rightarrow> Inl (usage ''No command provided'')
      | Some command \<Rightarrow>
          if command \<notin> set commandNames
          then Inl (usage (''Command \"'' @ command @ ''\" does not exist''))
          else Inr command)"

text \<open>\<open>commands[command](translation)\<close>; calling what is not a function raises.\<close>

definition dispatch_v2 :: "string \<Rightarrow> obj \<Rightarrow> string \<Rightarrow> world \<Rightarrow> js_error + world" where
  "dispatch_v2 command default_lang translation w =
     (case map_of commands command of
        Some Merge \<Rightarrow> mergeFunc_v2 default_lang translation w
      | Some Validate \<Rightarrow> validateFunc_v2 default_lang translation w
      | None \<Rightarrow> Inl TypeError)"

definition dispatch_v1 :: "string \<Rightarrow> obj \<Rightarrow> string \<Rightarrow> world \<Rightarrow> js_error + world" where
  "dispatch_v1 command default_lang translation w =
     (case map_of commands command of
        Some Merge \<Rightarrow> mergeFunc_v1 default_lang translation w
      | Some Validate \<Rightarrow> validateFunc_v1 default_lang translation w
      | None \<Rightarrow> Inl TypeError)"

fun forEach :: "(string \<Rightarrow> world \<Rightarrow> js_error + world) \<Rightarrow> string list \<Rightarrow> world \<Rightarrow> js_error + world" where
  "forEach f [] w = Inr w"
| "forEach f (t # ts) w = (case f t w of Inl e \<Rightarrow> Inl e | Inr w' \<Rightarrow> forEach f ts w')"

text \<open>
  The second argument: \<open>None\<close> when \<open>process.argv[3]\<close> is undefined.  \<open>!!arg\<close> is
  false for an undefined and for an empty argument.
\<close>

definition truthy :: "string option \<Rightarrow> bool" where
  "truthy arg = (case arg of None \<Rightarrow> False | Some a \<Rightarrow> a \<noteq> [])"

definition run_v2 :: "index \<Rightarrow> obj \<Rightarrow> string \<Rightarrow> string option \<Rightarrow> world \<Rightarrow> js_error + world" where
  "run_v2 idx default_lang command arg w =
     (case arg of
        None \<Rightarrow> forEach (dispatch_v2 command default_lang) (translation_files idx) w
      | Some a \<Rightarrow>
          if truthy arg \<and> a \<in> set (translation_files idx)
          then dispatch_v2 command default_lang a w
          else if truthy arg then
            (case newTranslations idx w a of
               Inl e \<Rightarrow> Inl e
             | Inr ts \<Rightarrow> forEach (dispatch_v2 command default_lang) ts w)
          else forEach (dispatch_v2 command default_lang) (translation_files idx) w)"

definition run_v1 :: "index \<Rightarrow> obj \<Rightarrow> string \<Rightarrow> string option \<Rightarrow> world \<Rightarrow> js_error + world" where
  "run_v1 idx default_lang command arg w =
     (case arg of
        None \<Rightarrow> forEach (dispatch_v1 command default_lang) (translation_files idx) w
      | Some a \<Rightarrow>
          if truthy arg \<and> a \<in> set (translation_files idx)
          then dispatch_v1 command default_lang a w
          else forEach (dispatch_v1 command default_lang) (translation_files idx) w)"

text \<open>
  The whole script: the default language is read while the module loads, before the
  command is looked at; the report starts empty.  The report of the world a finished
  run returns is what the script prints and writes to \<open>.result.json\<close>.
\<close>

datatype outcome = Threw js_error | Exit1 string | Finished world

definition empty_report :: report where
  "empty_report = \<lparr>changed = [], errors = [], warnings = []\<rparr>"

definition main_v2 :: "index \<Rightarrow> string option \<Rightarrow> string option \<Rightarrow> world \<Rightarrow> outcome" where
  "main_v2 idx argv2 argv3 w =
     (case translationToObj w (default_lang_file idx) of
        Inl e \<Rightarrow> Threw e
      | Inr default_lang \<Rightarrow>
          (case resolve_command argv2 of
             Inl msg \<Rightarrow> Exit1 msg
           | Inr command \<Rightarrow>
               (case run_v2 idx default_lang command argv3 (w\<lparr>res := empty_report\<rparr>) of
                  Inl e \<Rightarrow> Threw e
                | Inr w' \<Rightarrow> Finished w')))"

definition main_v1 :: "index \<Rightarrow> string option \<Rightarrow> string option \<Rightarrow> world \<Rightarrow> outcome" where
  "main_v1 idx argv2 argv3 w =
     (case translationToObj w (default_lang_file idx) of
        Inl e \<Rightarrow> Threw e
      | Inr default_lang \<Rightarrow>
          (case resolve_command argv2 of
             Inl msg \<Rightarrow> Exit1 msg
           | Inr command \<Rightarrow>
               (case run_v1 idx default_lang command argv3 (w\<lparr>res := empty_report\<rparr>) of
                  Inl e \<Rightarrow> Threw e
                | Inr w' \<Rightarrow> Finished w')))"

section \<open>What the specification says of the runner and of the loops\<close>

text \<open>A capitalization of a lowercase word: every letter as it is or as its capital.\<close>

definition upper_char :: "char \<Rightarrow> char" where
  "upper_char c =
     (case map_of (zip ''abcdefghijklmnopqrstuvwxyz'' ''ABCDEFGHIJKLMNOPQRSTUVWXYZ'') c of
        Some u \<Rightarrow> u
      | None \<Rightarrow> c)"

definition capitalization_of :: "string \<Rightarrow> string \<Rightarrow> bool" where
  "capitalization_of word s = list_all2 (\<lambda>a b. b = a \<or> b = upper_char a) word s"

text \<open>
  The errors one shared key adds, pattern by pattern, and the errors and warnings of a
  whole translation: the keys of the translation in order, those the default language
  owns.
\<close>

definition pattern_msgs :: "string \<Rightarrow> string \<Rightarrow> string \<Rightarrow> string \<Rightarrow> string list \<Rightarrow> string list" where
  "pattern_msgs translation key sval tval ps =
     concat (map (\<lambda>p. if count sval p \<noteq> count tval p
                       then [pattern_error_msg translation key p (count sval p) (count tval p)]
                       else []) ps)"

definition pattern_errors :: "string \<Rightarrow> obj \<Rightarrow> obj \<Rightarrow> string list" where
  "pattern_errors translation default_lang translation_obj =
     concat (map (\<lambda>(key, tval). case map_of default_lang key of
                                    None \<Rightarrow> []
                                  | Some sval \<Rightarrow> pattern_msgs translation key sval tval patterns)
                 translation_obj)"

definition param_msgs :: "string \<Rightarrow> string \<Rightarrow> string \<Rightarrow> string \<Rightarrow> string list" where
  "param_msgs translation key sval tval =
     (if count sval ''{}'' \<noteq> count tval ''{}''
      then [param_error_msg translation key (count sval ''{}'') (count tval ''{}'')]
      else [])"

definition param_errors :: "string \<Rightarrow> obj \<Rightarrow> obj \<Rightarrow> string list" where
  "param_errors translation default_lang translation_obj =
     concat (map (\<lambda>(key, tval). case map_of default_lang key of
                                    None \<Rightarrow> []
                                  | Some sval \<Rightarrow> param_msgs translation key sval tval)
                 translation_obj)"

definition untranslated_warnings :: "string \<Rightarrow> obj \<Rightarrow> obj \<Rightarrow> string list" where
  "untranslated_warnings translation default_lang translation_obj =
     concat (map (\<lambda>(key, tval). if map_of default_lang key = Some tval
                                  then [untranslated_msg translation key] else [])
                 translation_obj)"

text \<open>
  The reconciled mapping: the default language's properties in their order, each with
  the translation's value where the translation owns the key.
\<close>

definition reconciled :: "obj \<Rightarrow> obj \<Rightarrow> obj" where
  "reconciled default_lang translation_obj =
     map (\<lambda>(key, sval). (key, case map_of translation_obj key of
                                  None \<Rightarrow> sval
                                | Some tval \<Rightarrow> tval))
         default_lang"

text \<open>
  No key of the translation that the default language lacks names a property inherited
  from \<open>Object.prototype\<close>.
\<close>

definition no_inherited_clash :: "obj \<Rightarrow> obj \<Rightarrow> bool" where
  "no_inherited_clash default_lang translation_obj =
     list_all (\<lambda>k. k \<in> set object_prototype_names \<longrightarrow> has_own default_lang k)
       (keys translation_obj)"

section \<open>A small installation\<close>

definition ex_index :: index where
  "ex_index = \<lparr>default_lang_code = ''en'',
               translations_table = [(''en'', ''en.json''), (''fr'', ''fr.json''),
                                     (''de'', ''de.json'')]\<rparr>"

definition ex_en :: obj where
  "ex_en = [(''greet'', ''Hello {}''), (''bye'', ''Bye'')]"

definition ex_fr :: obj where
  "ex_fr = [(''greet'', ''Bonjour''), (''bye'', ''Bye''), (''old'', ''x'')]"

definition ex_de :: obj where
  "ex_de = [(''greet'', ''Hallo {}''), (''bye'', ''Tschuess'')]"

definition ex_world :: world where
  "ex_world =
     \<lparr>files = [''en.json'' \<mapsto> ex_en, ''fr.json'' \<mapsto> ex_fr, ''de.json'' \<mapsto> ex_de],
      prior_index = (\<lambda>p. if p \<in> set [''old/index.json'', ''./old/index.json'',
                                          ''/srv/old/index.json'']
                          then Index [(''en'', ''en.json''), (''fr'', ''fr.json'')]
                          else if p \<in> set [''same/index.json'', ''./same/index.json'']
                          then Index [(''en'', ''en.json''), (''de'', ''de.json''),
                                      (''fr'', ''fr.json'')]
                          else Absent),
      res = empty_report\<rparr>"

text \<open>
  In this world a previous index lies at \<open>old/index.json\<close> of the working
  directory and another at \<open>same/index.json\<close>, each under both spellings of its
  relative path; a copy of the first lies at the absolute path
  \<open>/srv/old/index.json\<close>, outside the working directory.
\<close>

text \<open>A world with one translation file and an empty report.\<close>

definition one_file :: "string \<Rightarrow> obj \<Rightarrow> world" where
  "one_file name x = \<lparr>files = [name \<mapsto> x], prior_index = (\<lambda>p. Absent), res = empty_report\<rparr>"

definition ex_ab :: obj where
  "ex_ab = [(''a'', ''1''), (''b'', ''2'')]"

definition ex_ac :: obj where
  "ex_ac = [(''a'', ''x''), (''c'', ''y'')]"

definition ex_ctor :: obj where
  "ex_ctor = [(''a'', ''x''), (''constructor'', ''y'')]"

definition ex_hop_source :: obj where
  "ex_hop_source = [(''hasOwnProperty'', ''owns the property'')]"

definition ex_hop_target :: obj where
  "ex_hop_target = [(''hasOwnProperty'', ''possede la propriete'')]"

section \<open>Properties of the placeholder counter\<close>

lemma scan_drop: "scan pat k s = scan pat 0 (drop k s)"
proof (induction s arbitrary: k)
  case Nil show ?case by simp
next
  case (Cons c cs)
  show ?case
  proof (cases k)
    case 0 then show ?thesis by simp
  next
    case (Suc j)
    then show ?thesis using Cons.IH [of j] by simp
  qed
qed

lemma length_split_pieces:
  "pat \<noteq> [] \<Longrightarrow> length (split_pieces pat piece s) = Suc (scan pat 0 s)"
proof (induction pat piece s rule: split_pieces.induct)
  case (1 sep piece) show ?case by simp
next
  case (2 sep piece c cs)
  show ?case
  proof (cases "prefix sep (c # cs)")
    case True
    obtain n where n: "length sep = Suc n" using "2.prems" by (cases sep) auto
    have "length (split_pieces sep [] (drop (length sep) (c # cs))) = Suc (scan sep 0 (drop n cs))"
      using "2.IH"(1) "2.prems" True n by simp
    also have "scan sep 0 (drop n cs) = scan sep n cs" by (rule scan_drop [symmetric])
    finally show ?thesis using True "2.prems" n by simp
  next
    case False
    then show ?thesis using "2.IH"(2) "2.prems" by simp
  qed
qed

lemma pick_disjoint_shift:
  "pick_disjoint len (Suc k) (map Suc ps) = pick_disjoint len k ps"
  by (induction ps arbitrary: k) auto

lemma pick_disjoint_shift0:
  "pick_disjoint len 0 (map Suc ps) = pick_disjoint len 0 ps"
  using pick_disjoint_shift [of len] by (cases ps) auto

lemma occurs_at_prefix: "occurs_at str pat 0 = prefix pat str"
proof
  assume "occurs_at str pat 0"
  then have "take (length pat) str = pat" by (simp add: occurs_at_def)
  then show "prefix pat str" using take_is_prefix [of "length pat" str] by simp
next
  assume "prefix pat str"
  then obtain zs where "str = pat @ zs" by (auto simp: prefix_def)
  then show "occurs_at str pat 0" by (simp add: occurs_at_def)
qed

lemma occurs_at_Suc: "occurs_at (c # cs) pat (Suc i) = occurs_at cs pat i"
  by (simp add: occurs_at_def)

lemma occurrence_positions_Cons:
  "occurrence_positions (c # cs) pat =
     (if prefix pat (c # cs) then [0] else []) @ map Suc (occurrence_positions cs pat)"
proof -
  have "[0..<Suc (Suc (length cs))] = 0 # map Suc [0..<Suc (length cs)]"
    by (simp add: upt_conv_Cons map_Suc_upt del: upt_Suc)
  then show ?thesis
    by (simp add: occurrence_positions_def filter_map comp_def occurs_at_prefix occurs_at_Suc
          del: upt_Suc)
qed

lemma occurrence_positions_Nil: "pat \<noteq> [] \<Longrightarrow> occurrence_positions [] pat = []"
  by (simp add: occurrence_positions_def occurs_at_def)

lemma scan_pick:
  "pat \<noteq> [] \<Longrightarrow> scan pat k s = pick_disjoint (length pat) k (occurrence_positions s pat)"
proof (induction s arbitrary: k)
  case Nil then show ?case by (simp add: occurrence_positions_Nil)
next
  case (Cons c cs)
  obtain n where n: "length pat = Suc n" using Cons.prems by (cases pat) auto
  show ?case
  proof (cases k)
    case 0
    then show ?thesis
      using Cons.IH [OF Cons.prems] n
      by (simp add: occurrence_positions_Cons pick_disjoint_shift pick_disjoint_shift0)
  next
    case (Suc j)
    then show ?thesis
      using Cons.IH [OF Cons.prems, of j]
      by (simp add: occurrence_positions_Cons pick_disjoint_shift)
  qed
qed

lemma count_occurrences: "pat \<noteq> [] \<Longrightarrow> count str pat = int (occurrences str pat)"
  by (simp add: count_def split_js_def length_split_pieces scan_pick occurrences_def)

text \<open>The pattern occurs in the text exactly when it is a contiguous part of it.\<close>

lemma occurs_sublist: "occurs str pat = sublist pat str"
proof
  assume "occurs str pat"
  then obtain i where i: "occurs_at str pat i"
    by (auto simp: occurs_def occurrence_positions_def filter_empty_conv simp del: upt_Suc)
  have "str = take i str @ take (length pat) (drop i str) @ drop (length pat) (drop i str)"
    by (simp only: append_take_drop_id)
  then have "str = take i str @ pat @ drop (length pat) (drop i str)"
    using i by (simp add: occurs_at_def)
  then show "sublist pat str" unfolding sublist_def by blast
next
  assume "sublist pat str"
  then obtain ps ss where t: "str = ps @ pat @ ss" by (auto simp: sublist_def)
  then have "occurs_at str pat (length ps)" by (simp add: occurs_at_def)
  moreover have "length ps \<in> set [0..<Suc (length str)]" using t by simp
  ultimately show "occurs str pat"
    unfolding occurs_def occurrence_positions_def filter_empty_conv by blast
qed

text \<open>
  The scan from the left finds as many occurrences as any non-overlapping selection of
  occurrences has.
\<close>

lemma pick_disjoint_free:
  "(free \<le> free' \<longrightarrow> pick_disjoint len free' ps \<le> pick_disjoint len free ps) \<and>
   (free'' \<le> free + len \<longrightarrow> pick_disjoint len free ps \<le> Suc (pick_disjoint len free'' ps))"
proof (induction ps arbitrary: free free' free'')
  case Nil show ?case by simp
next
  case (Cons q qs)
  have mono: "\<And>a b. a \<le> b \<Longrightarrow> pick_disjoint len b qs \<le> pick_disjoint len a qs"
    using Cons.IH by blast
  have slack: "\<And>a b. b \<le> a + len \<Longrightarrow> pick_disjoint len a qs \<le> Suc (pick_disjoint len b qs)"
    using Cons.IH by blast
  have one: "free \<le> free' \<longrightarrow>
               pick_disjoint len free' (q # qs) \<le> pick_disjoint len free (q # qs)"
  proof
    assume le: "free \<le> free'"
    show "pick_disjoint len free' (q # qs) \<le> pick_disjoint len free (q # qs)"
    proof (cases "free' \<le> q")
      case True then show ?thesis using le by simp
    next
      case False
      show ?thesis
      proof (cases "free \<le> q")
        case True
        have "pick_disjoint len free' qs \<le> Suc (pick_disjoint len (q + len) qs)"
          using slack [of "q + len" free'] False by simp
        then show ?thesis using True False by simp
      next
        case nle: False
        then show ?thesis using False mono [OF le] by simp
      qed
    qed
  qed
  have two: "free'' \<le> free + len \<longrightarrow>
               pick_disjoint len free (q # qs) \<le> Suc (pick_disjoint len free'' (q # qs))"
  proof
    assume le: "free'' \<le> free + len"
    show "pick_disjoint len free (q # qs) \<le> Suc (pick_disjoint len free'' (q # qs))"
    proof (cases "free \<le> q")
      case True
      show ?thesis
      proof (cases "free'' \<le> q")
        case True then show ?thesis using \<open>free \<le> q\<close> by simp
      next
        case False
        have "pick_disjoint len (q + len) qs \<le> pick_disjoint len free'' qs"
          using mono [of free'' "q + len"] le True by simp
        then show ?thesis using True False by simp
      qed
    next
      case False
      show ?thesis
      proof (cases "free'' \<le> q")
        case True
        have "pick_disjoint len free qs \<le> Suc (pick_disjoint len (q + len) qs)"
          using slack [of "q + len" free] False by simp
        then show ?thesis using True False by simp
      next
        case nle: False
        then show ?thesis using False slack [OF le] by simp
      qed
    qed
  qed
  show ?case using one two by blast
qed

lemma pick_disjoint_all_later:
  "\<forall>x \<in> set ps. free' \<le> x \<Longrightarrow> free \<le> free' \<Longrightarrow>
     pick_disjoint len free ps = pick_disjoint len free' ps"
  by (cases ps) auto

lemma pick_disjoint_maximal:
  "sorted ps \<Longrightarrow> subseq qs ps \<Longrightarrow> spaced len free qs \<Longrightarrow>
     length qs \<le> pick_disjoint len free ps"
proof (induction ps arbitrary: free qs)
  case Nil then show ?case by simp
next
  case (Cons p ps)
  have sp: "sorted ps" and later: "\<forall>x \<in> set ps. p \<le> x" using Cons.prems(1) by auto
  show ?case
  proof (cases qs)
    case Nil then show ?thesis by simp
  next
    case (Cons q qs')
    have fq: "free \<le> q" and sq: "spaced len (q + len) qs'"
      using Cons.prems(3) Cons by auto
    from Cons.prems(2) Cons consider
      (here) "q = p" "subseq qs' ps" | (later) "subseq (q # qs') ps"
      by (auto simp: subseq_Cons2_iff split: if_splits)
    then show ?thesis
    proof cases
      case here
      have "length qs' \<le> pick_disjoint len (p + len) ps"
        using Cons.IH [OF sp here(2)] sq here(1) by simp
      then show ?thesis using fq here(1) Cons by simp
    next
      case later
      have ih: "length qs \<le> pick_disjoint len free ps"
        using Cons.IH [OF sp _ Cons.prems(3)] later Cons by simp
      show ?thesis
      proof (cases "free \<le> p")
        case True
        have "pick_disjoint len free ps = pick_disjoint len p ps"
          using pick_disjoint_all_later [OF \<open>\<forall>x \<in> set ps. p \<le> x\<close> True] .
        also have "\<dots> \<le> Suc (pick_disjoint len (p + len) ps)"
          using pick_disjoint_free [where free = p and free'' = "p + len" and len = len and ps = ps]
          by simp
        finally show ?thesis using ih True by simp
      next
        case False
        then show ?thesis using ih by simp
      qed
    qed
  qed
qed

lemma pick_positions_props:
  "length (pick_positions len free ps) = pick_disjoint len free ps \<and>
   subseq (pick_positions len free ps) ps \<and>
   spaced len free (pick_positions len free ps)"
  by (induction ps arbitrary: free) (auto simp: subseq_Cons')

lemma sorted_occurrence_positions: "sorted (occurrence_positions str pat)"
  unfolding occurrence_positions_def by (rule sorted_wrt_filter) (rule sorted_upt)

lemma occurrences_maximal:
  "subseq qs (occurrence_positions str pat) \<Longrightarrow> spaced (length pat) 0 qs \<Longrightarrow>
     length qs \<le> occurrences str pat"
  unfolding occurrences_def
  by (rule pick_disjoint_maximal [OF sorted_occurrence_positions])

lemma occurrences_attained:
  "\<exists>qs. subseq qs (occurrence_positions str pat) \<and> spaced (length pat) 0 qs \<and>
        length qs = occurrences str pat"
  unfolding occurrences_def using pick_positions_props by blast


text \<open>
  C3, as stated for every pattern, fails at the empty pattern: on the empty text
  \<open>split\<close> yields no piece, so \<open>count\<close> is \<open>-1\<close>, which is no number of
  occurrences.
\<close>

theorem count_empty_pattern_not_occurrences:
  "count [] [] \<noteq> int (occurrences [] [])"
  by (simp add: count_def split_js_def)

text \<open>
  C3 (amended): for every text and every non-empty pattern, \<open>count\<close> is the number of
  non-overlapping occurrences of the literal pattern found from the left, which no
  non-overlapping selection of occurrences exceeds; it is the number of pieces of the
  split minus one, and it is 0 when the pattern does not occur in the text.
\<close>

theorem count_nonempty_pattern:
  "pat \<noteq> [] \<Longrightarrow>
     count str pat = int (occurrences str pat) \<and>
     (\<forall>qs. subseq qs (occurrence_positions str pat) \<and> spaced (length pat) 0 qs \<longrightarrow>
           int (length qs) \<le> count str pat) \<and>
     (\<exists>qs. subseq qs (occurrence_positions str pat) \<and> spaced (length pat) 0 qs \<and>
           int (length qs) = count str pat) \<and>
     count str pat = int (length (split_js str pat)) - 1 \<and>
     (\<not> occurs str pat \<longrightarrow> count str pat = 0)"
proof -
  assume ne: "pat \<noteq> []"
  have occ: "count str pat = int (occurrences str pat)"
    by (rule count_occurrences [OF ne])
  have most: "\<forall>qs. subseq qs (occurrence_positions str pat) \<and> spaced (length pat) 0 qs \<longrightarrow>
                int (length qs) \<le> count str pat"
    using occurrences_maximal [of _ str pat] occ by simp
  have some: "\<exists>qs. subseq qs (occurrence_positions str pat) \<and> spaced (length pat) 0 qs \<and>
                int (length qs) = count str pat"
    using occurrences_attained [of str pat] occ by simp
  have pieces: "count str pat = int (length (split_js str pat)) - 1"
    by (simp add: count_def)
  have absent: "\<not> occurs str pat \<longrightarrow> count str pat = 0"
    using occ by (simp add: occurrences_def occurs_def)
  show ?thesis using occ most some pieces absent by blast
qed

theorem count_nonempty_pattern_witness:
  "''{}'' \<noteq> [] \<and> count ''a{}b{}c'' ''{}'' = 2 \<and> occurrences ''a{}b{}c'' ''{}'' = 2 \<and>
   length (split_js ''a{}b{}c'' ''{}'') = 3 \<and>
   \<not> occurs ''abc'' ''{}'' \<and> count ''abc'' ''{}'' = 0"
proof -
  have ne: "''{}'' \<noteq> []" by simp
  have c: "count ''a{}b{}c'' ''{}'' = 2" by (simp add: count_def split_js_def)
  have a: "\<not> occurs ''abc'' ''{}''"
    by (simp add: occurs_def occurrence_positions_def occurs_at_def)
  have "count ''a{}b{}c'' ''{}'' = int (occurrences ''a{}b{}c'' ''{}'')"
    using count_nonempty_pattern [OF ne, of "''a{}b{}c''"] by blast
  moreover have "count ''abc'' ''{}'' = 0"
    using count_nonempty_pattern [OF ne, of "''abc''"] a by blast
  moreover have "length (split_js ''a{}b{}c'' ''{}'') = 3" by (simp add: split_js_def)
  ultimately show ?thesis using c a by simp
qed

text \<open>
  C9, as stated for every text and pattern, fails where both are empty: the count
  there is \<open>-1\<close>.
\<close>

theorem count_negative_at_empty: "\<not> 0 \<le> count [] []"
  by (simp add: count_def split_js_def)

text \<open>
  C9 (amended): for every text and pattern that are not both empty, \<open>count\<close> returns
  an integer greater than or equal to 0.
\<close>

theorem count_nonneg: "str \<noteq> [] \<or> pat \<noteq> [] \<Longrightarrow> 0 \<le> count str pat"
proof (cases "pat = []")
  case True
  assume "str \<noteq> [] \<or> pat \<noteq> []"
  with True obtain c cs where "str = c # cs" by (cases str) auto
  with True show ?thesis by (simp add: count_def split_js_def)
next
  case False
  then show ?thesis by (simp add: count_occurrences)
qed

theorem count_nonneg_witness:
  "0 \<le> count ''abc'' [] \<and> count ''abc'' [] = 2"
proof -
  have h: "''abc'' \<noteq> [] \<or> ([] :: string) \<noteq> []" by simp
  have "count ''abc'' [] = 2" by (simp add: count_def split_js_def)
  then show ?thesis using count_nonneg [OF h] by simp
qed


section \<open>The diff against a previous index\<close>

lemmas ex_defs = ex_world_def ex_en_def ex_fr_def ex_de_def empty_report_def
lemmas js_defs = translationToObj_def has_property_def has_own_def keys_def get_prop_def
  set_prop_def object_prototype_names_def count_val_def count_def split_js_def patternCheck_def
  validateParams_def patterns_def objHasAllKeys_def
lemmas msg_defs = pattern_error_msg_def param_error_msg_def untranslated_msg_def show_int_def
  digits.simps digit_char_def

lemma ex_translation_files: "translation_files ex_index = [''fr.json'', ''de.json'']"
  by (simp add: translation_files_def target_files_def default_lang_file_def ex_index_def)

text \<open>
  What \<open>newTranslations\<close> returns, in terms of the two indexes alone.  The current
  target files are the files of the current index other than the default language's.
  With nothing at the path they are all returned.  With a file at the path and an index
  read at \<open>./\<close> followed by the path, the result is the current target files that
  the previous index does not list, in the current order, or all of them when there is
  no such file (the previous index's entry for the current default language is left out
  of the comparison, which changes nothing: no current target file is that file).  With
  a file at the path and none at \<open>./\<close> followed by the path, the read raises.
\<close>

lemma newTranslations_result:
  "(prior_index w p = Absent \<longrightarrow>
      newTranslations idx w p =
        Inr [f \<leftarrow> map snd (translations_table idx). f \<noteq> default_lang_code idx @ ''.json'']) \<and>
   (prior_index w p \<noteq> Absent \<and> prior_index w (''./'' @ p) = Index table \<longrightarrow>
      newTranslations idx w p =
        Inr (let current = [f \<leftarrow> map snd (translations_table idx).
                              f \<noteq> default_lang_code idx @ ''.json''];
                 difference = [f \<leftarrow> current. f \<notin> snd ` set table]
             in if difference = [] then current else difference)) \<and>
   (prior_index w p \<noteq> Absent \<and> prior_index w (''./'' @ p) = Absent \<longrightarrow>
      newTranslations idx w p = Inl ReadError)"
proof -
  let ?dfile = "default_lang_code idx @ ''.json''"
  let ?current = "[f \<leftarrow> map snd (translations_table idx). f \<noteq> ?dfile]"
  have cur: "translation_files idx = ?current"
    by (simp add: translation_files_def target_files_def default_lang_file_def)
  have "filter (\<lambda>x. x \<notin> set (target_files ?dfile table)) ?current =
        filter (\<lambda>x. x \<notin> snd ` set table) ?current"
    by (rule filter_cong) (auto simp: target_files_def)
  then show ?thesis
    by (simp add: newTranslations_def existsSync_def read_index_translations_def Let_def cur
          default_lang_file_def)
qed

text \<open>
  C4 claims that \<open>newTranslations\<close> returns the difference whenever the previous index
  exists.  The existence test is made at the path as given, the read at \<open>./\<close>
  followed by the path: for the index at the absolute path \<open>/srv/old/index.json\<close>,
  which lacks \<open>de.json\<close>, the test succeeds and the read finds no file, so the run
  ends with an error where the claim has \<open>de.json\<close> returned, as it is for the same
  index at the relative path \<open>old/index.json\<close>.
\<close>

theorem newTranslations_raises_on_absolute_path:
  "existsSync ex_world ''/srv/old/index.json'' \<and>
   prior_index ex_world ''/srv/old/index.json'' =
     Index [(''en'', ''en.json''), (''fr'', ''fr.json'')] \<and>
   translation_files ex_index = [''fr.json'', ''de.json''] \<and>
   newTranslations ex_index ex_world ''/srv/old/index.json'' = Inl ReadError \<and>
   newTranslations ex_index ex_world ''old/index.json'' = Inr [''de.json'']"
  by (simp add: newTranslations_def existsSync_def read_index_translations_def
        target_files_def default_lang_file_def ex_index_def translation_files_def ex_world_def)

section \<open>The command name\<close>

lemma lower_upper:
  "c \<in> set ''abcdefghijklmnopqrstuvwxyz'' \<Longrightarrow> lower_char c = c \<and> lower_char (upper_char c) = c"
proof -
  have "\<forall>c \<in> set ''abcdefghijklmnopqrstuvwxyz''. lower_char c = c \<and> lower_char (upper_char c) = c"
    by (simp add: lower_char_def upper_char_def capital_units_def small_units_def)
  then show "c \<in> set ''abcdefghijklmnopqrstuvwxyz'' \<Longrightarrow> lower_char c = c \<and> lower_char (upper_char c) = c"
    by blast
qed

lemma toLowerCase_capitalization:
  "capitalization_of word s \<Longrightarrow> set word \<subseteq> set ''abcdefghijklmnopqrstuvwxyz'' \<Longrightarrow>
     toLowerCase s = word"
  unfolding capitalization_of_def toLowerCase_def
proof (induction word s rule: list_all2_induct)
  case Nil show ?case by simp
next
  case (Cons a as b bs)
  have "a \<in> set ''abcdefghijklmnopqrstuvwxyz''" using Cons.prems by simp
  then have "lower_char b = a" using Cons.hyps(1) lower_upper [of a] by auto
  moreover have "map lower_char bs = as" using Cons.IH Cons.prems by simp
  ultimately show ?case by simp
qed

lemma resolve_capitalization:
  assumes n: "name \<in> set commandNames" and c: "capitalization_of name s"
  shows "resolve_command (Some s) = Inr name"
proof -
  from n have "name = ''merge'' \<or> name = ''validate''"
    by (auto simp: commandNames_def commands_def)
  then have "set name \<subseteq> set ''abcdefghijklmnopqrstuvwxyz''" by auto
  then have "toLowerCase s = name" using c by (rule toLowerCase_capitalization [rotated])
  then show ?thesis using n by (simp add: resolve_command_def)
qed

text \<open>
  C10: the command name is lowercased before it is compared with the known names, so for
  every capitalization of \<open>merge\<close> or \<open>validate\<close> the script, in both copies, does
  not exit with the usage message: it goes on with the lowercased name and calls
  \<open>mergeFunc\<close>, respectively \<open>validateFunc\<close>, on the files the second argument
  selects (on every target file when there is none, on the named file when it names
  one).
\<close>

theorem command_case_insensitive:
  "name \<in> set commandNames \<Longrightarrow> capitalization_of name s \<Longrightarrow>
     resolve_command (Some s) = Inr name \<and>
     dispatch_v1 name = (if name = ''merge'' then mergeFunc_v1 else validateFunc_v1) \<and>
     dispatch_v2 name = (if name = ''merge'' then mergeFunc_v2 else validateFunc_v2) \<and>
     main_v1 idx (Some s) arg w =
       (case translationToObj w (default_lang_file idx) of
          Inl e \<Rightarrow> Threw e
        | Inr default_lang \<Rightarrow>
            (case run_v1 idx default_lang name arg (w\<lparr>res := empty_report\<rparr>) of
               Inl e \<Rightarrow> Threw e
             | Inr w' \<Rightarrow> Finished w')) \<and>
     main_v2 idx (Some s) arg w =
       (case translationToObj w (default_lang_file idx) of
          Inl e \<Rightarrow> Threw e
        | Inr default_lang \<Rightarrow>
            (case run_v2 idx default_lang name arg (w\<lparr>res := empty_report\<rparr>) of
               Inl e \<Rightarrow> Threw e
             | Inr w' \<Rightarrow> Finished w')) \<and>
     run_v1 idx dl name None v =
       forEach (if name = ''merge'' then mergeFunc_v1 dl else validateFunc_v1 dl)
         (translation_files idx) v \<and>
     run_v2 idx dl name None v =
       forEach (if name = ''merge'' then mergeFunc_v2 dl else validateFunc_v2 dl)
         (translation_files idx) v \<and>
     (a \<noteq> [] \<and> a \<in> set (translation_files idx) \<longrightarrow>
        run_v1 idx dl name (Some a) v =
          (if name = ''merge'' then mergeFunc_v1 dl a v else validateFunc_v1 dl a v) \<and>
        run_v2 idx dl name (Some a) v =
          (if name = ''merge'' then mergeFunc_v2 dl a v else validateFunc_v2 dl a v))"
proof -
  assume n: "name \<in> set commandNames" and c: "capitalization_of name s"
  from n have nm: "name = ''merge'' \<or> name = ''validate''"
    by (auto simp: commandNames_def commands_def)
  have r: "resolve_command (Some s) = Inr name"
    by (rule resolve_capitalization [OF n c])
  have d1: "dispatch_v1 name = (if name = ''merge'' then mergeFunc_v1 else validateFunc_v1)"
    using nm by (auto simp: dispatch_v1_def commands_def fun_eq_iff)
  have d2: "dispatch_v2 name = (if name = ''merge'' then mergeFunc_v2 else validateFunc_v2)"
    using nm by (auto simp: dispatch_v2_def commands_def fun_eq_iff)
  have e1: "dispatch_v1 name dl = (if name = ''merge'' then mergeFunc_v1 dl else validateFunc_v1 dl)"
    by (simp add: d1)
  have e2: "dispatch_v2 name dl = (if name = ''merge'' then mergeFunc_v2 dl else validateFunc_v2 dl)"
    by (simp add: d2)
  have m1: "main_v1 idx (Some s) arg w =
       (case translationToObj w (default_lang_file idx) of
          Inl e \<Rightarrow> Threw e
        | Inr default_lang \<Rightarrow>
            (case run_v1 idx default_lang name arg (w\<lparr>res := empty_report\<rparr>) of
               Inl e \<Rightarrow> Threw e
             | Inr w' \<Rightarrow> Finished w'))"
    by (simp add: main_v1_def r split: sum.splits)
  have m2: "main_v2 idx (Some s) arg w =
       (case translationToObj w (default_lang_file idx) of
          Inl e \<Rightarrow> Threw e
        | Inr default_lang \<Rightarrow>
            (case run_v2 idx default_lang name arg (w\<lparr>res := empty_report\<rparr>) of
               Inl e \<Rightarrow> Threw e
             | Inr w' \<Rightarrow> Finished w'))"
    by (simp add: main_v2_def r split: sum.splits)
  have n1: "run_v1 idx dl name None v =
       forEach (if name = ''merge'' then mergeFunc_v1 dl else validateFunc_v1 dl)
         (translation_files idx) v"
    by (simp add: run_v1_def e1)
  have n2: "run_v2 idx dl name None v =
       forEach (if name = ''merge'' then mergeFunc_v2 dl else validateFunc_v2 dl)
         (translation_files idx) v"
    by (simp add: run_v2_def e2)
  have k: "a \<noteq> [] \<and> a \<in> set (translation_files idx) \<longrightarrow>
        run_v1 idx dl name (Some a) v =
          (if name = ''merge'' then mergeFunc_v1 dl a v else validateFunc_v1 dl a v) \<and>
        run_v2 idx dl name (Some a) v =
          (if name = ''merge'' then mergeFunc_v2 dl a v else validateFunc_v2 dl a v)"
    by (simp add: run_v1_def run_v2_def truthy_def e1 e2)
  show ?thesis using r d1 d2 m1 m2 n1 n2 k by blast
qed

theorem command_case_insensitive_witness:
  "resolve_command (Some ''MERGE'') = Inr ''merge'' \<and>
   resolve_command (Some ''Validate'') = Inr ''validate'' \<and>
   dispatch_v2 ''merge'' = mergeFunc_v2 \<and> dispatch_v2 ''validate'' = validateFunc_v2 \<and>
   main_v2 ex_index (Some ''MERGE'') (Some ''de.json'') ex_world = Finished ex_world \<and>
   main_v2 ex_index (Some ''Validate'') (Some ''fr.json'') ex_world =
     Finished (ex_world\<lparr>res := \<lparr>changed = [],
                                 errors = [''fr.json[greet]: incorrect number of `{}` found (1:0)''],
                                 warnings = [''fr.json[bye]: might be untranslated'']\<rparr>\<rparr>) \<and>
   main_v1 ex_index (Some ''VALIDATE'') (Some ''fr.json'') ex_world =
     Finished (ex_world\<lparr>res := \<lparr>changed = [],
                                 errors = [''fr.json[greet]: incorrect number of parameters (1:0)''],
                                 warnings = []\<rparr>\<rparr>)"
proof -
  have m: "''merge'' \<in> set commandNames" and v: "''validate'' \<in> set commandNames"
    by (simp_all add: commandNames_def commands_def)
  have cm: "capitalization_of ''merge'' ''MERGE''"
    by (simp add: capitalization_of_def upper_char_def)
  have cv: "capitalization_of ''validate'' ''Validate''"
    by (simp add: capitalization_of_def upper_char_def)
  have cw: "capitalization_of ''validate'' ''VALIDATE''"
    by (simp add: capitalization_of_def upper_char_def)
  have dfile: "default_lang_file ex_index = ''en.json''"
    by (simp add: default_lang_file_def ex_index_def)
  have en: "translationToObj ex_world ''en.json'' = Inr ex_en"
    by (simp add: translationToObj_def ex_world_def)
  have start: "ex_world\<lparr>res := empty_report\<rparr> = ex_world"
    by (simp add: ex_world_def)
  have de: "''de.json'' \<noteq> [] \<and> ''de.json'' \<in> set (translation_files ex_index)"
    and fr: "''fr.json'' \<noteq> [] \<and> ''fr.json'' \<in> set (translation_files ex_index)"
    by (simp_all add: ex_translation_files)
  have mde: "mergeFunc_v2 ex_en ''de.json'' ex_world = Inr ex_world"
    by (simp add: mergeFunc_v2_def ex_defs js_defs msg_defs)
  have vfr: "validateFunc_v2 ex_en ''fr.json'' ex_world =
     Inr (ex_world\<lparr>res := \<lparr>changed = [],
                            errors = [''fr.json[greet]: incorrect number of `{}` found (1:0)''],
                            warnings = [''fr.json[bye]: might be untranslated'']\<rparr>\<rparr>)"
    by (simp add: validateFunc_v2_def ex_defs js_defs msg_defs)
  have wfr: "validateFunc_v1 ex_en ''fr.json'' ex_world =
     Inr (ex_world\<lparr>res := \<lparr>changed = [],
                            errors = [''fr.json[greet]: incorrect number of parameters (1:0)''],
                            warnings = []\<rparr>\<rparr>)"
    by (simp add: validateFunc_v1_def ex_defs js_defs msg_defs)
  note M = command_case_insensitive [OF m cm, where idx = ex_index and w = ex_world
      and arg = "Some ''de.json''" and a = "''de.json''" and dl = ex_en and v = ex_world]
  note V = command_case_insensitive [OF v cv, where idx = ex_index and w = ex_world
      and arg = "Some ''fr.json''" and a = "''fr.json''" and dl = ex_en and v = ex_world]
  note W = command_case_insensitive [OF v cw, where idx = ex_index and w = ex_world
      and arg = "Some ''fr.json''" and a = "''fr.json''" and dl = ex_en and v = ex_world]
  have 1: "resolve_command (Some ''MERGE'') = Inr ''merge''" using M by blast
  have 2: "resolve_command (Some ''Validate'') = Inr ''validate''" using V by blast
  have 3: "dispatch_v2 ''merge'' = mergeFunc_v2" using M by simp
  have 4: "dispatch_v2 ''validate'' = validateFunc_v2" using V by simp
  have 5: "main_v2 ex_index (Some ''MERGE'') (Some ''de.json'') ex_world = Finished ex_world"
    using M de by (simp add: dfile en start mde)
  have 6: "main_v2 ex_index (Some ''Validate'') (Some ''fr.json'') ex_world =
     Finished (ex_world\<lparr>res := \<lparr>changed = [],
                                 errors = [''fr.json[greet]: incorrect number of `{}` found (1:0)''],
                                 warnings = [''fr.json[bye]: might be untranslated'']\<rparr>\<rparr>)"
    using V fr by (simp add: dfile en start vfr)
  have 7: "main_v1 ex_index (Some ''VALIDATE'') (Some ''fr.json'') ex_world =
     Finished (ex_world\<lparr>res := \<lparr>changed = [],
                                 errors = [''fr.json[greet]: incorrect number of parameters (1:0)''],
                                 warnings = []\<rparr>\<rparr>)"
    using W fr by (simp add: dfile en start wfr)
  show ?thesis using 1 2 3 4 5 6 7 by blast
qed


section \<open>The second argument\<close>

text \<open>
  C8 (amended): a non-empty second argument that is a known target file runs the command
  on that file only, in both copies.  A non-empty argument that is not a known target
  file is, in the second copy, the path of a previous index and the command runs on the
  files \<open>newTranslations\<close> returns; the first copy has no diff and runs the command
  on every target file.  Without the argument, or with an empty one, both copies run the
  command on every target file.
\<close>

theorem arg_dispatch:
  "(a \<noteq> [] \<and> a \<in> set (translation_files idx) \<longrightarrow>
      run_v2 idx dl c (Some a) w = dispatch_v2 c dl a w \<and>
      run_v1 idx dl c (Some a) w = dispatch_v1 c dl a w) \<and>
   (a \<noteq> [] \<and> a \<notin> set (translation_files idx) \<longrightarrow>
      run_v2 idx dl c (Some a) w =
        (case newTranslations idx w a of
           Inl e \<Rightarrow> Inl e
         | Inr ts \<Rightarrow> forEach (dispatch_v2 c dl) ts w) \<and>
      run_v1 idx dl c (Some a) w = forEach (dispatch_v1 c dl) (translation_files idx) w) \<and>
   run_v2 idx dl c None w = forEach (dispatch_v2 c dl) (translation_files idx) w \<and>
   run_v1 idx dl c None w = forEach (dispatch_v1 c dl) (translation_files idx) w \<and>
   run_v2 idx dl c (Some []) w = forEach (dispatch_v2 c dl) (translation_files idx) w \<and>
   run_v1 idx dl c (Some []) w = forEach (dispatch_v1 c dl) (translation_files idx) w"
  by (simp add: run_v2_def run_v1_def truthy_def)

theorem arg_dispatch_witness:
  "run_v2 ex_index ex_en ''validate'' (Some ''fr.json'') ex_world =
     validateFunc_v2 ex_en ''fr.json'' ex_world \<and>
   run_v2 ex_index ex_en ''validate'' (Some ''old/index.json'') ex_world =
     forEach (dispatch_v2 ''validate'' ex_en) [''de.json''] ex_world \<and>
   run_v1 ex_index ex_en ''validate'' (Some ''old/index.json'') ex_world =
     forEach (dispatch_v1 ''validate'' ex_en) [''fr.json'', ''de.json''] ex_world \<and>
   run_v2 ex_index ex_en ''validate'' None ex_world =
     forEach (dispatch_v2 ''validate'' ex_en) [''fr.json'', ''de.json''] ex_world"
proof -
  have n: "newTranslations ex_index ex_world ''old/index.json'' = Inr [''de.json'']"
    by (simp add: newTranslations_def existsSync_def read_index_translations_def
          target_files_def default_lang_file_def ex_index_def translation_files_def ex_world_def)
  have d: "dispatch_v2 ''validate'' = validateFunc_v2"
    by (simp add: dispatch_v2_def commands_def fun_eq_iff)
  show ?thesis
    using arg_dispatch [where a = "''fr.json''" and idx = ex_index and dl = ex_en
        and c = "''validate''" and w = ex_world]
      arg_dispatch [where a = "''old/index.json''" and idx = ex_index and dl = ex_en
        and c = "''validate''" and w = ex_world]
    by (simp add: ex_translation_files n d)
qed

lemma ex_run_v1_prior:
  "(case run_v1 ex_index ex_en ''validate'' (Some ''old/index.json'') ex_world of
      Inl e \<Rightarrow> [] | Inr w \<Rightarrow> errors (res w)) =
   [''fr.json[greet]: incorrect number of parameters (1:0)'']"
  by (simp add: run_v1_def truthy_def ex_translation_files dispatch_v1_def commands_def
        validateFunc_v1_def ex_defs js_defs msg_defs)

lemma ex_diff_v1_prior:
  "(case (case newTranslations ex_index ex_world ''old/index.json'' of
            Inl e \<Rightarrow> Inl e
          | Inr ts \<Rightarrow> forEach (dispatch_v1 ''validate'' ex_en) ts ex_world) of
      Inl e \<Rightarrow> [] | Inr w \<Rightarrow> errors (res w)) = []"
  by (simp add: newTranslations_def existsSync_def read_index_translations_def
        target_files_def default_lang_file_def ex_index_def translation_files_def
        dispatch_v1_def commands_def validateFunc_v1_def ex_defs js_defs msg_defs)

text \<open>
  C8, as stated, fails on the first copy: with a previous index that lacks
  \<open>de.json\<close>, the first copy still validates \<open>fr.json\<close> and reports its error,
  which a run on the diff alone would not.
\<close>

theorem arg_prior_index_ignored_v1:
  "run_v1 ex_index ex_en ''validate'' (Some ''old/index.json'') ex_world \<noteq>
   (case newTranslations ex_index ex_world ''old/index.json'' of
      Inl e \<Rightarrow> Inl e
    | Inr ts \<Rightarrow> forEach (dispatch_v1 ''validate'' ex_en) ts ex_world)"
proof
  assume "run_v1 ex_index ex_en ''validate'' (Some ''old/index.json'') ex_world =
   (case newTranslations ex_index ex_world ''old/index.json'' of
      Inl e \<Rightarrow> Inl e
    | Inr ts \<Rightarrow> forEach (dispatch_v1 ''validate'' ex_en) ts ex_world)"
  then have "[''fr.json[greet]: incorrect number of parameters (1:0)''] = ([] :: string list)"
    using ex_run_v1_prior ex_diff_v1_prior by simp
  then show False by simp
qed

section \<open>The loops of merge and validate\<close>

lemma check_patterns_string:
  "check_patterns t k (JString sv) tv ps errs = Inr (errs @ pattern_msgs t k sv tv ps)"
  by (induction ps arbitrary: errs)
     (simp_all add: pattern_msgs_def patternCheck_def count_val_def)

lemma validateParams_string:
  "validateParams (JString sv) tv = Inr (count sv ''{}'', count tv ''{}'')"
  by (simp add: validateParams_def count_val_def)

lemma get_prop_own: "map_of x k = Some v \<Longrightarrow> get_prop x k = JString v"
  by (simp add: get_prop_def)

lemma has_own_map_of: "has_own x k = (map_of x k \<noteq> None)"
  by (simp add: has_own_def keys_def map_of_eq_None_iff)

lemma rewrite_absent:
  "k \<notin> fst ` set x \<Longrightarrow> map (\<lambda>(k', v'). (k', if k' = k then v else v')) x = x"
  by (induction x) auto

lemma set_prop_own:
  "distinct (keys x) \<Longrightarrow> has_own x k \<Longrightarrow>
     set_prop x k v = map (\<lambda>(k', v'). (k', if k' = k then v else v')) x"
proof (induction x)
  case Nil then show ?case by (simp add: has_own_def keys_def)
next
  case (Cons p ps)
  show ?case
  proof (cases "fst p = k")
    case True
    have "k \<notin> fst ` set ps" using Cons.prems(1) True by (auto simp: keys_def)
    then show ?thesis using True
      by (cases p) (simp add: set_prop_def rewrite_absent)
  next
    case False
    then have "has_own ps k" using Cons.prems(2) by (auto simp: has_own_def keys_def)
    moreover have "distinct (keys ps)" using Cons.prems(1) by (simp add: keys_def)
    ultimately have "set_prop ps k v = map (\<lambda>(k', v'). (k', if k' = k then v else v')) ps"
      by (rule Cons.IH [rotated])
    then show ?thesis using False by (cases p) (simp add: set_prop_def)
  qed
qed

lemma keys_rewrite: "keys (map (\<lambda>(k', v'). (k', f k' v')) x) = keys x"
  by (induction x) (auto simp: keys_def)

text \<open>The state of the merge loop after some entries of the translation.\<close>

lemma merge_loop_v2_general:
  assumes "distinct (keys src)" and "distinct (keys es)" and "no_inherited_clash src es"
    and "keys r = keys src"
  shows "merge_loop_v2 t src es r errs =
           Inr (map (\<lambda>(k, v0). (k, case map_of es k of None \<Rightarrow> v0 | Some tv \<Rightarrow> tv)) r,
                errs @ pattern_errors t src es)"
  using assms
proof (induction es arbitrary: r errs)
  case Nil
  show ?case by (simp add: pattern_errors_def)
next
  case (Cons e es)
  obtain k v where e: "e = (k, v)" by (cases e)
  have d: "distinct (keys es)" and kn: "k \<notin> fst ` set es"
    using Cons.prems(2) e by (auto simp: keys_def)
  have nc: "no_inherited_clash src es"
    using Cons.prems(3) by (simp add: no_inherited_clash_def keys_def)
  have kn': "map_of es k = None" using kn by (simp add: map_of_eq_None_iff)
  show ?case
  proof (cases "has_own src k")
    case True
    then obtain sv where sv: "map_of src k = Some sv" by (auto simp: has_own_map_of)
    have own: "has_own r k" using True Cons.prems(4) by (simp add: has_own_def)
    have dr: "distinct (keys r)" using Cons.prems(1,4) by simp
    let ?r' = "map (\<lambda>(k', v'). (k', if k' = k then v else v')) r"
    have sp: "set_prop r k v = ?r'" by (rule set_prop_own [OF dr own])
    have kr: "keys ?r' = keys src" using Cons.prems(4) by (simp add: keys_rewrite)
    have ih: "merge_loop_v2 t src es ?r' (errs @ pattern_msgs t k sv v patterns) =
           Inr (map (\<lambda>(k, v0). (k, case map_of es k of None \<Rightarrow> v0 | Some tv \<Rightarrow> tv)) ?r',
                (errs @ pattern_msgs t k sv v patterns) @ pattern_errors t src es)"
      by (rule Cons.IH [OF Cons.prems(1) d nc kr])
    have m: "map (\<lambda>(k, v0). (k, case map_of es k of None \<Rightarrow> v0 | Some tv \<Rightarrow> tv)) ?r' =
             map (\<lambda>(k', v0). (k', case map_of (e # es) k' of None \<Rightarrow> v0 | Some tv \<Rightarrow> tv)) r"
      using kn' e by (auto simp: case_prod_beta)
    have p: "pattern_errors t src (e # es) = pattern_msgs t k sv v patterns @ pattern_errors t src es"
      using e sv by (simp add: pattern_errors_def)
    have "merge_loop_v2 t src (e # es) r errs =
            merge_loop_v2 t src es ?r' (errs @ pattern_msgs t k sv v patterns)"
      using own sv e by (simp add: has_property_def get_prop_own check_patterns_string sp)
    also note ih
    also have "Inr (map (\<lambda>(k, v0). (k, case map_of es k of None \<Rightarrow> v0 | Some tv \<Rightarrow> tv)) ?r',
                (errs @ pattern_msgs t k sv v patterns) @ pattern_errors t src es) =
          (Inr (map (\<lambda>(k', v0). (k', case map_of (e # es) k' of None \<Rightarrow> v0 | Some tv \<Rightarrow> tv)) r,
                errs @ pattern_errors t src (e # es)) :: js_error + obj \<times> string list)"
      by (simp only: m p append_assoc)
    finally show ?thesis .
  next
    case False
    then have none: "map_of src k = None" by (simp add: has_own_map_of)
    have np: "k \<notin> set object_prototype_names"
      using Cons.prems(3) False e by (simp add: no_inherited_clash_def keys_def)
    have nown: "\<not> has_own r k" using False Cons.prems(4) by (simp add: has_own_def)
    have ih: "merge_loop_v2 t src es r errs =
           Inr (map (\<lambda>(k, v0). (k, case map_of es k of None \<Rightarrow> v0 | Some tv \<Rightarrow> tv)) r,
                errs @ pattern_errors t src es)"
      by (rule Cons.IH [OF Cons.prems(1) d nc Cons.prems(4)])
    have "k \<notin> fst ` set r" using nown by (simp add: has_own_def keys_def)
    then have m: "map (\<lambda>(k, v0). (k, case map_of es k of None \<Rightarrow> v0 | Some tv \<Rightarrow> tv)) r =
             map (\<lambda>(k', v0). (k', case map_of (e # es) k' of None \<Rightarrow> v0 | Some tv \<Rightarrow> tv)) r"
      using e by (auto simp: case_prod_beta)
    have p: "pattern_errors t src (e # es) = pattern_errors t src es"
      using e none by (simp add: pattern_errors_def)
    have "merge_loop_v2 t src (e # es) r errs = merge_loop_v2 t src es r errs"
      using nown np e by (simp add: has_property_def)
    also note ih
    also have "Inr (map (\<lambda>(k, v0). (k, case map_of es k of None \<Rightarrow> v0 | Some tv \<Rightarrow> tv)) r,
                errs @ pattern_errors t src es) =
          (Inr (map (\<lambda>(k', v0). (k', case map_of (e # es) k' of None \<Rightarrow> v0 | Some tv \<Rightarrow> tv)) r,
                errs @ pattern_errors t src (e # es)) :: js_error + obj \<times> string list)"
      by (simp only: m p)
    finally show ?thesis .
  qed
qed

lemma merge_loop_v2_reconciled:
  assumes "distinct (keys src)" and "distinct (keys tgt)" and "no_inherited_clash src tgt"
  shows "merge_loop_v2 t src tgt src errs =
           Inr (reconciled src tgt, errs @ pattern_errors t src tgt)"
  using merge_loop_v2_general [OF assms refl] by (simp add: reconciled_def)


lemma merge_loop_v1_general:
  assumes "distinct (keys src)" and "distinct (keys es)" and "no_inherited_clash src es"
    and "keys r = keys src"
  shows "merge_loop_v1 t src es r errs =
           Inr (map (\<lambda>(k, v0). (k, case map_of es k of None \<Rightarrow> v0 | Some tv \<Rightarrow> tv)) r,
                errs @ param_errors t src es)"
  using assms
proof (induction es arbitrary: r errs)
  case Nil
  show ?case by (simp add: param_errors_def)
next
  case (Cons e es)
  obtain k v where e: "e = (k, v)" by (cases e)
  have d: "distinct (keys es)" and kn: "k \<notin> fst ` set es"
    using Cons.prems(2) e by (auto simp: keys_def)
  have nc: "no_inherited_clash src es"
    using Cons.prems(3) by (simp add: no_inherited_clash_def keys_def)
  have kn': "map_of es k = None" using kn by (simp add: map_of_eq_None_iff)
  show ?case
  proof (cases "has_own src k")
    case True
    then obtain sv where sv: "map_of src k = Some sv" by (auto simp: has_own_map_of)
    have own: "has_own r k" using True Cons.prems(4) by (simp add: has_own_def)
    have dr: "distinct (keys r)" using Cons.prems(1,4) by simp
    let ?r' = "map (\<lambda>(k', v'). (k', if k' = k then v else v')) r"
    have sp: "set_prop r k v = ?r'" by (rule set_prop_own [OF dr own])
    have kr: "keys ?r' = keys src" using Cons.prems(4) by (simp add: keys_rewrite)
    have ih: "merge_loop_v1 t src es ?r' (errs @ param_msgs t k sv v) =
           Inr (map (\<lambda>(k, v0). (k, case map_of es k of None \<Rightarrow> v0 | Some tv \<Rightarrow> tv)) ?r',
                (errs @ param_msgs t k sv v) @ param_errors t src es)"
      by (rule Cons.IH [OF Cons.prems(1) d nc kr])
    have m: "map (\<lambda>(k, v0). (k, case map_of es k of None \<Rightarrow> v0 | Some tv \<Rightarrow> tv)) ?r' =
             map (\<lambda>(k', v0). (k', case map_of (e # es) k' of None \<Rightarrow> v0 | Some tv \<Rightarrow> tv)) r"
      using kn' e by (auto simp: case_prod_beta)
    have p: "param_errors t src (e # es) = param_msgs t k sv v @ param_errors t src es"
      using e sv by (simp add: param_errors_def)
    have "merge_loop_v1 t src (e # es) r errs =
            merge_loop_v1 t src es ?r' (errs @ param_msgs t k sv v)"
      using own sv e
      by (simp add: has_property_def get_prop_own validateParams_string sp param_msgs_def)
    also note ih
    also have "Inr (map (\<lambda>(k, v0). (k, case map_of es k of None \<Rightarrow> v0 | Some tv \<Rightarrow> tv)) ?r',
                (errs @ param_msgs t k sv v) @ param_errors t src es) =
          (Inr (map (\<lambda>(k', v0). (k', case map_of (e # es) k' of None \<Rightarrow> v0 | Some tv \<Rightarrow> tv)) r,
                errs @ param_errors t src (e # es)) :: js_error + obj \<times> string list)"
      by (simp only: m p append_assoc)
    finally show ?thesis .
  next
    case False
    then have none: "map_of src k = None" by (simp add: has_own_map_of)
    have np: "k \<notin> set object_prototype_names"
      using Cons.prems(3) False e by (simp add: no_inherited_clash_def keys_def)
    have nown: "\<not> has_own r k" using False Cons.prems(4) by (simp add: has_own_def)
    have ih: "merge_loop_v1 t src es r errs =
           Inr (map (\<lambda>(k, v0). (k, case map_of es k of None \<Rightarrow> v0 | Some tv \<Rightarrow> tv)) r,
                errs @ param_errors t src es)"
      by (rule Cons.IH [OF Cons.prems(1) d nc Cons.prems(4)])
    have "k \<notin> fst ` set r" using nown by (simp add: has_own_def keys_def)
    then have m: "map (\<lambda>(k, v0). (k, case map_of es k of None \<Rightarrow> v0 | Some tv \<Rightarrow> tv)) r =
             map (\<lambda>(k', v0). (k', case map_of (e # es) k' of None \<Rightarrow> v0 | Some tv \<Rightarrow> tv)) r"
      using e by (auto simp: case_prod_beta)
    have p: "param_errors t src (e # es) = param_errors t src es"
      using e none by (simp add: param_errors_def)
    have "merge_loop_v1 t src (e # es) r errs = merge_loop_v1 t src es r errs"
      using nown np e by (simp add: has_property_def)
    also note ih
    also have "Inr (map (\<lambda>(k, v0). (k, case map_of es k of None \<Rightarrow> v0 | Some tv \<Rightarrow> tv)) r,
                errs @ param_errors t src es) =
          (Inr (map (\<lambda>(k', v0). (k', case map_of (e # es) k' of None \<Rightarrow> v0 | Some tv \<Rightarrow> tv)) r,
                errs @ param_errors t src (e # es)) :: js_error + obj \<times> string list)"
      by (simp only: m p)
    finally show ?thesis .
  qed
qed

lemma merge_loop_v1_reconciled:
  assumes "distinct (keys src)" and "distinct (keys tgt)" and "no_inherited_clash src tgt"
  shows "merge_loop_v1 t src tgt src errs =
           Inr (reconciled src tgt, errs @ param_errors t src tgt)"
  using merge_loop_v1_general [OF assms refl] by (simp add: reconciled_def)

lemma validate_loop_v2_result:
  "no_inherited_clash src es \<Longrightarrow>
     validate_loop_v2 t src es errs warns =
       Inr (errs @ pattern_errors t src es, warns @ untranslated_warnings t src es)"
proof (induction es arbitrary: errs warns)
  case Nil
  show ?case by (simp add: pattern_errors_def untranslated_warnings_def)
next
  case (Cons e es)
  obtain k v where e: "e = (k, v)" by (cases e)
  have nc: "no_inherited_clash src es"
    using Cons.prems by (simp add: no_inherited_clash_def keys_def)
  note ih = Cons.IH [OF nc]
  show ?case
  proof (cases "map_of src k")
    case None
    then have "\<not> has_own src k" by (simp add: has_own_map_of)
    moreover from this have "k \<notin> set object_prototype_names"
      using Cons.prems e by (simp add: no_inherited_clash_def keys_def)
    ultimately show ?thesis
      using None e ih
      by (simp add: has_property_def pattern_errors_def untranslated_warnings_def)
  next
    case (Some sv)
    then have "has_own src k" by (simp add: has_own_map_of)
    then show ?thesis
      using Some e ih
      by (simp add: has_property_def get_prop_own check_patterns_string pattern_errors_def
            untranslated_warnings_def)
  qed
qed

lemma validate_loop_v1_result:
  "no_inherited_clash src es \<Longrightarrow>
     validate_loop_v1 t src es errs = Inr (errs @ param_errors t src es)"
proof (induction es arbitrary: errs)
  case Nil
  show ?case by (simp add: param_errors_def)
next
  case (Cons e es)
  obtain k v where e: "e = (k, v)" by (cases e)
  have nc: "no_inherited_clash src es"
    using Cons.prems by (simp add: no_inherited_clash_def keys_def)
  note ih = Cons.IH [OF nc]
  show ?case
  proof (cases "map_of src k")
    case None
    then have "\<not> has_own src k" by (simp add: has_own_map_of)
    moreover from this have "k \<notin> set object_prototype_names"
      using Cons.prems e by (simp add: no_inherited_clash_def keys_def)
    ultimately show ?thesis
      using None e ih by (simp add: has_property_def param_errors_def)
  next
    case (Some sv)
    then have "has_own src k" by (simp add: has_own_map_of)
    then show ?thesis
      using Some e ih
      by (simp add: has_property_def get_prop_own validateParams_string param_errors_def
            param_msgs_def)
  qed
qed

lemma keys_reconciled: "keys (reconciled src tgt) = keys src"
  by (simp add: reconciled_def keys_rewrite)

lemma map_of_reconciled:
  "map_of (reconciled src tgt) k =
     (case map_of src k of
        None \<Rightarrow> None
      | Some sv \<Rightarrow> (case map_of tgt k of None \<Rightarrow> Some sv | Some tv \<Rightarrow> Some tv))"
  unfolding reconciled_def
  by (induction src) (auto split: option.splits)

lemma objHasAllKeys_sets:
  assumes "distinct (keys x)" and "distinct (keys y)"
    and "\<not> has_own y ''hasOwnProperty'' \<or> y = []"
  shows "objHasAllKeys x y = Inr (set (keys x) = set (keys y))"
proof (cases "length (keys x) = length (keys y)")
  case False
  have "set (keys x) \<noteq> set (keys y)"
  proof
    assume "set (keys x) = set (keys y)"
    then have "card (set (keys x)) = card (set (keys y))" by simp
    then show False using assms(1,2) False by (simp add: distinct_card)
  qed
  then show ?thesis using False by (simp add: objHasAllKeys_def)
next
  case True
  show ?thesis
  proof (cases "keys x = []")
    case True
    then show ?thesis using \<open>length (keys x) = length (keys y)\<close>
      by (simp add: objHasAllKeys_def)
  next
    case False
    then have "y \<noteq> []" using True by (auto simp: keys_def)
    then have nh: "\<not> has_own y ''hasOwnProperty''" using assms(3) by simp
    have "list_all (has_own y) (keys x) = (set (keys x) \<subseteq> set (keys y))"
      by (auto simp: list_all_iff has_own_def)
    also have "\<dots> = (set (keys x) = set (keys y))"
    proof
      assume sub: "set (keys x) \<subseteq> set (keys y)"
      have "card (set (keys x)) = card (set (keys y))"
        using assms(1,2) True by (simp add: distinct_card)
      then show "set (keys x) = set (keys y)"
        using sub by (simp add: card_subset_eq)
    qed simp
    finally show ?thesis using True False nh by (simp add: objHasAllKeys_def)
  qed
qed

section \<open>merge and validate on a file\<close>

lemma mergeFunc_v2_result:
  assumes f: "files w t = Some tgt"
    and d: "distinct (keys src)" "distinct (keys tgt)"
    and nc: "no_inherited_clash src tgt"
    and nh: "\<not> has_own tgt ''hasOwnProperty'' \<or> tgt = []"
  shows "mergeFunc_v2 src t w =
           Inr (if set (keys src) \<noteq> set (keys tgt)
                then w\<lparr>files := (files w)(t \<mapsto> reconciled src tgt),
                       res := (res w)\<lparr>changed := changed (res w) @ [t],
                                      errors := errors (res w) @ pattern_errors t src tgt\<rparr>\<rparr>
                else w\<lparr>res := (res w)\<lparr>errors := errors (res w) @ pattern_errors t src tgt\<rparr>\<rparr>)"
proof -
  have l: "merge_loop_v2 t src tgt src (errors (res w)) =
             Inr (reconciled src tgt, errors (res w) @ pattern_errors t src tgt)"
    by (rule merge_loop_v2_reconciled [OF d nc])
  have "distinct (keys (reconciled src tgt))" using d(1) by (simp add: keys_reconciled)
  then have o: "objHasAllKeys (reconciled src tgt) tgt = Inr (set (keys src) = set (keys tgt))"
    using objHasAllKeys_sets [OF _ d(2) nh, of "reconciled src tgt"]
    by (simp add: keys_reconciled)
  show ?thesis
    by (simp add: mergeFunc_v2_def translationToObj_def f l o)
qed

lemma mergeFunc_v1_result:
  assumes f: "files w t = Some tgt"
    and d: "distinct (keys src)" "distinct (keys tgt)"
    and nc: "no_inherited_clash src tgt"
  shows "mergeFunc_v1 src t w =
           Inr (if length (keys src) \<noteq> length (keys tgt)
                then w\<lparr>files := (files w)(t \<mapsto> reconciled src tgt),
                       res := (res w)\<lparr>changed := changed (res w) @ [t],
                                      errors := errors (res w) @ param_errors t src tgt\<rparr>\<rparr>
                else w\<lparr>res := (res w)\<lparr>errors := errors (res w) @ param_errors t src tgt\<rparr>\<rparr>)"
proof -
  have l: "merge_loop_v1 t src tgt src (errors (res w)) =
             Inr (reconciled src tgt, errors (res w) @ param_errors t src tgt)"
    by (rule merge_loop_v1_reconciled [OF d nc])
  show ?thesis
    by (simp add: mergeFunc_v1_def translationToObj_def f l keys_reconciled)
qed

lemma same_keys_no_clash: "set (keys tgt) \<subseteq> set (keys src) \<Longrightarrow> no_inherited_clash src tgt"
  by (auto simp: no_inherited_clash_def list_all_iff has_own_def)

text \<open>
  A translation that has exactly the keys of the default language is not rewritten: by
  the first copy always, by the second unless a key is named \<open>hasOwnProperty\<close>.
\<close>

lemma mergeFunc_v1_same_keys:
  assumes f: "files w t = Some tgt"
    and d: "distinct (keys src)" "distinct (keys tgt)"
    and s: "set (keys tgt) = set (keys src)"
  shows "\<exists>w'. mergeFunc_v1 src t w = Inr w' \<and> files w' = files w \<and>
           changed (res w') = changed (res w)"
proof -
  have nc: "no_inherited_clash src tgt" using s by (simp add: same_keys_no_clash)
  have "length (keys src) = length (keys tgt)"
    using d s by (metis distinct_card)
  then show ?thesis using mergeFunc_v1_result [OF f d nc] by simp
qed

lemma mergeFunc_v2_same_keys:
  assumes f: "files w t = Some tgt"
    and d: "distinct (keys src)" "distinct (keys tgt)"
    and s: "set (keys tgt) = set (keys src)"
    and nh: "\<not> has_own tgt ''hasOwnProperty'' \<or> tgt = []"
  shows "\<exists>w'. mergeFunc_v2 src t w = Inr w' \<and> files w' = files w \<and>
           changed (res w') = changed (res w)"
proof -
  have nc: "no_inherited_clash src tgt" using s by (simp add: same_keys_no_clash)
  show ?thesis using mergeFunc_v2_result [OF f d nc nh] s by simp
qed

lemma validateFunc_v2_result:
  assumes f: "files w t = Some tgt" and nc: "no_inherited_clash src tgt"
  shows "validateFunc_v2 src t w =
           Inr (w\<lparr>res := (res w)\<lparr>errors := errors (res w) @ pattern_errors t src tgt,
                                  warnings := warnings (res w) @ untranslated_warnings t src tgt\<rparr>\<rparr>)"
  by (simp add: validateFunc_v2_def translationToObj_def f validate_loop_v2_result [OF nc])

lemma validateFunc_v1_result:
  assumes f: "files w t = Some tgt" and nc: "no_inherited_clash src tgt"
  shows "validateFunc_v1 src t w =
           Inr (w\<lparr>res := (res w)\<lparr>errors := errors (res w) @ param_errors t src tgt\<rparr>\<rparr>)"
  by (simp add: validateFunc_v1_def translationToObj_def f validate_loop_v1_result [OF nc])

lemma shared_only_errors:
  "pattern_errors t src (filter (\<lambda>(k, v). has_own src k) tgt) = pattern_errors t src tgt"
  by (induction tgt) (auto simp: pattern_errors_def has_own_map_of)

lemma shared_only_params:
  "param_errors t src (filter (\<lambda>(k, v). has_own src k) tgt) = param_errors t src tgt"
  by (induction tgt) (auto simp: param_errors_def has_own_map_of)

lemma shared_only_warnings:
  "untranslated_warnings t src (filter (\<lambda>(k, v). has_own src k) tgt) =
     untranslated_warnings t src tgt"
  by (induction tgt) (auto simp: untranslated_warnings_def has_own_map_of)

section \<open>The claims about merge\<close>

text \<open>What the reconciled mapping is: the keys of the default language in their order,
  the translation's value at a shared key, the default language's own value elsewhere,
  and no key that only the translation has.\<close>

lemma reconciled_properties:
  "keys (reconciled src tgt) = keys src \<and>
   (map_of src k = Some sv \<and> map_of tgt k = Some tv \<longrightarrow> map_of (reconciled src tgt) k = Some tv) \<and>
   (map_of src k = Some sv \<and> map_of tgt k = None \<longrightarrow> map_of (reconciled src tgt) k = Some sv) \<and>
   (map_of src k = None \<longrightarrow> map_of (reconciled src tgt) k = None)"
  by (simp add: keys_reconciled map_of_reconciled)

text \<open>
  C1 claims the reconciled mapping for every translation, with the keys that only the
  translation has dropped.  The loop tests \<open>key in res_obj\<close>, which is also true
  of a key that names a property inherited from \<open>Object.prototype\<close>: for the
  default language \<open>{a: "1", b: "2"}\<close> and the translation
  \<open>{a: "x", constructor: "y"}\<close> the key \<open>constructor\<close> is not dropped; the
  count is taken of the inherited function and both copies raise a \<open>TypeError\<close>.
  (\<open>merge_loop_v2_reconciled\<close>, \<open>merge_loop_v1_reconciled\<close> and
  \<open>reconciled_properties\<close> give the claimed result for every translation without
  such a key.)
\<close>

theorem merge_raises_on_inherited_key:
  "mergeFunc_v1 ex_ab ''t.json'' (one_file ''t.json'' ex_ctor) = Inl TypeError \<and>
   mergeFunc_v2 ex_ab ''t.json'' (one_file ''t.json'' ex_ctor) = Inl TypeError"
  by (simp add: mergeFunc_v1_def mergeFunc_v2_def one_file_def ex_ab_def ex_ctor_def
        empty_report_def js_defs msg_defs)

text \<open>
  C2 claims that the file is rewritten, and recorded as changed, exactly when the key set
  of the reconciled mapping differs from the translation's.  The first copy compares the
  numbers of keys only: for the default language \<open>{a: "1", b: "2"}\<close> and the
  translation \<open>{a: "x", c: "y"}\<close> the key sets differ, yet the first copy leaves
  the file and the report as they are; the second copy, which compares the keys
  (\<open>mergeFunc_v2_result\<close>), rewrites the file.
\<close>

theorem merge_v1_keeps_changed_key_set:
  "mergeFunc_v1 ex_ab ''t.json'' (one_file ''t.json'' ex_ac) = Inr (one_file ''t.json'' ex_ac) \<and>
   ''b'' \<in> set (keys ex_ab) \<and> ''b'' \<notin> set (keys ex_ac) \<and>
   mergeFunc_v2 ex_ab ''t.json'' (one_file ''t.json'' ex_ac) =
     Inr \<lparr>files = [''t.json'' \<mapsto> [(''a'', ''x''), (''b'', ''2'')]],
          prior_index = (\<lambda>p. Absent),
          res = \<lparr>changed = [''t.json''], errors = [], warnings = []\<rparr>\<rparr>"
  by (simp add: mergeFunc_v1_def mergeFunc_v2_def one_file_def ex_ab_def ex_ac_def
        empty_report_def js_defs msg_defs)

text \<open>
  C7 claims that a translation with exactly the keys of the default language is merged
  without a change and without a write.  The first copy does so
  (\<open>mergeFunc_v1_same_keys\<close>), and so does the second unless the translation has a
  key named \<open>hasOwnProperty\<close> (\<open>mergeFunc_v2_same_keys\<close>): then the call
  \<open>y.hasOwnProperty(z)\<close> of \<open>objHasAllKeys\<close> finds the translated string and
  raises a \<open>TypeError\<close>.
\<close>

theorem merge_v2_raises_on_hasOwnProperty_key:
  "keys ex_hop_target = keys ex_hop_source \<and>
   mergeFunc_v2 ex_hop_source ''t.json'' (one_file ''t.json'' ex_hop_target) = Inl TypeError \<and>
   mergeFunc_v1 ex_hop_source ''t.json'' (one_file ''t.json'' ex_hop_target) =
     Inr (one_file ''t.json'' ex_hop_target)"
  by (simp add: mergeFunc_v1_def mergeFunc_v2_def one_file_def ex_hop_source_def
        ex_hop_target_def empty_report_def js_defs msg_defs)


text \<open>
  C6, as stated, fails on the first copy, whose message names no pattern: for the source
  value \<open>Hello {}\<close> and the translation \<open>Bonjour\<close> it appends
  \<open>fr.json[greet]: incorrect number of parameters (1:0)\<close>.
\<close>

theorem merge_v1_error_text:
  "merge_loop_v1 ''fr.json'' ex_en ex_fr ex_en [] =
     Inr ([(''greet'', ''Bonjour''), (''bye'', ''Bye'')],
          [''fr.json[greet]: incorrect number of parameters (1:0)'']) \<and>
   pattern_error_msg ''fr.json'' ''greet'' ''{}'' 1 0 \<noteq>
     ''fr.json[greet]: incorrect number of parameters (1:0)''"
  by (simp add: ex_defs js_defs msg_defs)

text \<open>
  C6 (amended): for a translation none of whose own-only keys names a property inherited
  from \<open>Object.prototype\<close>, merge appends, for every key shared with the default
  language in the translation's order, in the second copy one error for each of the
  patterns \<open>{}\<close> and \<open>%\<close> whose counts in the source value and in the
  translated value differ, reading
  \<open><file>[<key>]: incorrect number of `<pattern>` found (<source>:<target>)\<close>, and in
  the first copy one error for the pattern \<open>{}\<close> alone, reading
  \<open><file>[<key>]: incorrect number of parameters (<source>:<target>)\<close>; no error is
  appended when the counts agree, and in either case the reconciled mapping carries the
  translation's value at the shared key.
\<close>

theorem merge_placeholder_errors:
  assumes "distinct (keys src)" and "distinct (keys tgt)" and "no_inherited_clash src tgt"
  shows "merge_loop_v2 t src tgt src errs =
           Inr (reconciled src tgt, errs @ pattern_errors t src tgt) \<and>
         merge_loop_v1 t src tgt src errs =
           Inr (reconciled src tgt, errs @ param_errors t src tgt) \<and>
         (map_of src k = Some sv \<and> map_of tgt k = Some tv \<longrightarrow>
            map_of (reconciled src tgt) k = Some tv) \<and>
         pattern_msgs t k sv tv patterns =
           (if count sv ''{}'' \<noteq> count tv ''{}''
            then [t @ ''['' @ k @ '']: incorrect number of `{}` found (''
                    @ show_int (count sv ''{}'') @ '':'' @ show_int (count tv ''{}'') @ '')'']
            else []) @
           (if count sv ''%'' \<noteq> count tv ''%''
            then [t @ ''['' @ k @ '']: incorrect number of `%` found (''
                    @ show_int (count sv ''%'') @ '':'' @ show_int (count tv ''%'') @ '')'']
            else []) \<and>
         param_msgs t k sv tv =
           (if count sv ''{}'' \<noteq> count tv ''{}''
            then [t @ ''['' @ k @ '']: incorrect number of parameters (''
                    @ show_int (count sv ''{}'') @ '':'' @ show_int (count tv ''{}'') @ '')'']
            else [])"
proof -
  have a: "merge_loop_v2 t src tgt src errs =
             Inr (reconciled src tgt, errs @ pattern_errors t src tgt)"
    by (rule merge_loop_v2_reconciled [OF assms])
  have b: "merge_loop_v1 t src tgt src errs =
             Inr (reconciled src tgt, errs @ param_errors t src tgt)"
    by (rule merge_loop_v1_reconciled [OF assms])
  have c: "map_of src k = Some sv \<and> map_of tgt k = Some tv \<longrightarrow>
             map_of (reconciled src tgt) k = Some tv"
    by (simp add: map_of_reconciled)
  have d: "pattern_msgs t k sv tv patterns =
           (if count sv ''{}'' \<noteq> count tv ''{}''
            then [t @ ''['' @ k @ '']: incorrect number of `{}` found (''
                    @ show_int (count sv ''{}'') @ '':'' @ show_int (count tv ''{}'') @ '')'']
            else []) @
           (if count sv ''%'' \<noteq> count tv ''%''
            then [t @ ''['' @ k @ '']: incorrect number of `%` found (''
                    @ show_int (count sv ''%'') @ '':'' @ show_int (count tv ''%'') @ '')'']
            else [])"
    by (simp add: pattern_msgs_def patterns_def pattern_error_msg_def)
  have e: "param_msgs t k sv tv =
           (if count sv ''{}'' \<noteq> count tv ''{}''
            then [t @ ''['' @ k @ '']: incorrect number of parameters (''
                    @ show_int (count sv ''{}'') @ '':'' @ show_int (count tv ''{}'') @ '')'']
            else [])"
    by (simp add: param_msgs_def param_error_msg_def)
  show ?thesis using a b c d e by blast
qed

lemma ex_en_fr_hyps:
  "distinct (keys ex_en)" "distinct (keys ex_fr)" "no_inherited_clash ex_en ex_fr"
  by (simp_all add: ex_defs keys_def no_inherited_clash_def has_own_def
        object_prototype_names_def)

theorem merge_placeholder_errors_witness:
  "merge_loop_v2 ''fr.json'' ex_en ex_fr ex_en [] =
     Inr ([(''greet'', ''Bonjour''), (''bye'', ''Bye'')],
          [''fr.json[greet]: incorrect number of `{}` found (1:0)'']) \<and>
   merge_loop_v1 ''fr.json'' ex_en ex_fr ex_en [] =
     Inr ([(''greet'', ''Bonjour''), (''bye'', ''Bye'')],
          [''fr.json[greet]: incorrect number of parameters (1:0)'']) \<and>
   map_of (reconciled ex_en ex_fr) ''greet'' = Some ''Bonjour''"
proof -
  have r: "reconciled ex_en ex_fr = [(''greet'', ''Bonjour''), (''bye'', ''Bye'')]"
    by (simp add: reconciled_def ex_defs)
  have p: "pattern_errors ''fr.json'' ex_en ex_fr =
             [''fr.json[greet]: incorrect number of `{}` found (1:0)'']"
    by (simp add: pattern_errors_def pattern_msgs_def ex_defs js_defs msg_defs)
  have q: "param_errors ''fr.json'' ex_en ex_fr =
             [''fr.json[greet]: incorrect number of parameters (1:0)'']"
    by (simp add: param_errors_def param_msgs_def ex_defs js_defs msg_defs)
  have s: "map_of ex_en ''greet'' = Some ''Hello {}''" "map_of ex_fr ''greet'' = Some ''Bonjour''"
    by (simp_all add: ex_defs)
  show ?thesis
    using merge_placeholder_errors [OF ex_en_fr_hyps, where t = "''fr.json''" and errs = "[]"
        and k = "''greet''" and sv = "''Hello {}''" and tv = "''Bonjour''"] s
    by (simp add: r p q)
qed

section \<open>The claim about validate\<close>

text \<open>
  C5, as stated, fails on the first copy, which has no warnings: \<open>bye\<close> has the
  same value in \<open>en.json\<close> and \<open>fr.json\<close> and no warning is appended.
\<close>

theorem validate_v1_has_no_warning:
  "map_of ex_en ''bye'' = Some ''Bye'' \<and> map_of ex_fr ''bye'' = Some ''Bye'' \<and>
   validateFunc_v1 ex_en ''fr.json'' ex_world =
     Inr (ex_world\<lparr>res := \<lparr>changed = [],
                            errors = [''fr.json[greet]: incorrect number of parameters (1:0)''],
                            warnings = []\<rparr>\<rparr>)"
  by (simp add: validateFunc_v1_def ex_defs js_defs msg_defs)

text \<open>
  C5 (amended): for a translation none of whose own-only keys names a property inherited
  from \<open>Object.prototype\<close>, the second copy's validate appends, for every key
  shared with the default language, the warning
  \<open><file>[<key>]: might be untranslated\<close> exactly when the source value equals the
  translated value, and the keys that only the translation has add no error and no
  warning: the errors and warnings are those of the translation restricted to the shared
  keys.  The first copy's validate appends errors only.
\<close>

theorem validate_warnings:
  assumes "files w t = Some tgt" and "no_inherited_clash src tgt"
  shows "validateFunc_v2 src t w =
           Inr (w\<lparr>res := (res w)\<lparr>errors := errors (res w) @ pattern_errors t src tgt,
                                  warnings := warnings (res w)
                                                @ untranslated_warnings t src tgt\<rparr>\<rparr>) \<and>
         validateFunc_v1 src t w =
           Inr (w\<lparr>res := (res w)\<lparr>errors := errors (res w) @ param_errors t src tgt\<rparr>\<rparr>) \<and>
         untranslated_warnings t src tgt =
           concat (map (\<lambda>(key, tval). if map_of src key = Some tval
                                        then [t @ ''['' @ key @ '']: might be untranslated'']
                                        else []) tgt) \<and>
         untranslated_warnings t src (filter (\<lambda>(k, v). has_own src k) tgt) =
           untranslated_warnings t src tgt \<and>
         pattern_errors t src (filter (\<lambda>(k, v). has_own src k) tgt) = pattern_errors t src tgt \<and>
         param_errors t src (filter (\<lambda>(k, v). has_own src k) tgt) = param_errors t src tgt"
proof -
  have a: "validateFunc_v2 src t w =
           Inr (w\<lparr>res := (res w)\<lparr>errors := errors (res w) @ pattern_errors t src tgt,
                                  warnings := warnings (res w)
                                                @ untranslated_warnings t src tgt\<rparr>\<rparr>)"
    by (rule validateFunc_v2_result [OF assms])
  have b: "validateFunc_v1 src t w =
           Inr (w\<lparr>res := (res w)\<lparr>errors := errors (res w) @ param_errors t src tgt\<rparr>\<rparr>)"
    by (rule validateFunc_v1_result [OF assms])
  have c: "untranslated_warnings t src tgt =
           concat (map (\<lambda>(key, tval). if map_of src key = Some tval
                                        then [t @ ''['' @ key @ '']: might be untranslated'']
                                        else []) tgt)"
    unfolding untranslated_warnings_def untranslated_msg_def by (rule refl)
  show ?thesis
    using a b c shared_only_warnings [of t src tgt] shared_only_errors [of t src tgt]
      shared_only_params [of t src tgt]
    by blast
qed

theorem validate_warnings_witness:
  "validateFunc_v2 ex_en ''fr.json'' ex_world =
     Inr (ex_world\<lparr>res := \<lparr>changed = [],
                            errors = [''fr.json[greet]: incorrect number of `{}` found (1:0)''],
                            warnings = [''fr.json[bye]: might be untranslated'']\<rparr>\<rparr>) \<and>
   untranslated_warnings ''fr.json'' ex_en ex_fr = [''fr.json[bye]: might be untranslated''] \<and>
   filter (\<lambda>(k, v). has_own ex_en k) ex_fr = [(''greet'', ''Bonjour''), (''bye'', ''Bye'')]"
proof -
  have f: "files ex_world ''fr.json'' = Some ex_fr" by (simp add: ex_world_def)
  have p: "pattern_errors ''fr.json'' ex_en ex_fr =
             [''fr.json[greet]: incorrect number of `{}` found (1:0)'']"
    by (simp add: pattern_errors_def pattern_msgs_def ex_defs js_defs msg_defs)
  have u: "untranslated_warnings ''fr.json'' ex_en ex_fr = [''fr.json[bye]: might be untranslated'']"
    by (simp add: untranslated_warnings_def ex_defs msg_defs)
  have r: "res ex_world = \<lparr>changed = [], errors = [], warnings = []\<rparr>"
    by (simp add: ex_defs)
  have g: "filter (\<lambda>(k, v). has_own ex_en k) ex_fr = [(''greet'', ''Bonjour''), (''bye'', ''Bye'')]"
    by (simp add: has_own_def keys_def ex_defs)
  show ?thesis
    using validate_warnings [OF f ex_en_fr_hyps(3)]
    by (simp add: p u r g)
qed

end
